theory Spec2Isabelle
  imports Complex_Main "HOL-Library.Word" "HOL-Library.Log_Nat"
begin

unbundle bit_operations_syntax

section \<open>The C++ type \<open>float\<close>: IEEE 754 binary32, as bit patterns\<close>

text \<open>
  \<open>madgwickIMU.hpp\<close> computes in \<open>float\<close> and, in \<open>invSqrt\<close>, reads the bit pattern of a
  \<open>float\<close> through an integer pointer.  A \<open>float\<close> is therefore modelled by its 32-bit
  pattern (1 sign bit, 8 exponent bits, 23 fraction bits), and every arithmetic operation
  decodes its operands, computes the exact result and rounds it once to the nearest
  representable value, ties to even (the default rounding mode; no fused multiply-add, no
  extended intermediate precision).  Every operation that yields a NaN yields the one quiet
  NaN \<open>0x7FC00000\<close>: NaN payloads are not modelled.
\<close>

type_synonym float32 = "32 word"

text \<open>The value denoted by a bit pattern: NaN, a signed infinity, or the finite number
  \<open>(-1)\<^sup>s * m * 2\<^sup>e\<close> given as \<open>Fin s m e\<close>.\<close>

datatype fclass = NaN | Inf bool | Fin bool int int

definition sign_bit :: "float32 \<Rightarrow> bool" where
  "sign_bit w = bit w 31"

definition exp_field :: "float32 \<Rightarrow> int" where
  "exp_field w = uint (drop_bit 23 w AND 0xFF)"

definition frac_field :: "float32 \<Rightarrow> int" where
  "frac_field w = uint (w AND 0x7FFFFF)"

definition decode :: "float32 \<Rightarrow> fclass" where
  "decode w =
     (if exp_field w = 255 then (if frac_field w = 0 then Inf (sign_bit w) else NaN)
      else if exp_field w = 0 then Fin (sign_bit w) (frac_field w) (- 149)
      else Fin (sign_bit w) (2 ^ 23 + frac_field w) (exp_field w - 150))"

definition pack :: "bool \<Rightarrow> int \<Rightarrow> float32" where
  "pack sg b = (if sg then 0x80000000 else 0) + word_of_int b"

definition qNaN :: float32 where
  "qNaN = 0x7FC00000"

definition inf_bits :: int where
  "inf_bits = 0x7F800000"

text \<open>\<open>m / 2\<^sup>k\<close> rounded to the nearest integer, ties to the even one.\<close>

definition rne_shift :: "int \<Rightarrow> nat \<Rightarrow> int" where
  "rne_shift m k =
     (let q = m div 2 ^ k; r = m mod 2 ^ k
      in if 2 * r < 2 ^ k then q
         else if 2 ^ k < 2 * r then q + 1
         else if even q then q else q + 1)"

text \<open>Rounding of the exact value \<open>(-1)\<^sup>s * m * 2\<^sup>e\<close> (\<open>m \<ge> 0\<close>) to binary32.  \<open>q\<close> is
  the exponent of the unit in the last place of the result: the significand keeps 24 bits,
  fewer below the smallest normal number.  The biased exponent and the fraction are added
  up, so a significand rounded up to \<open>2\<^sup>2\<^sup>4\<close> carries into the exponent.\<close>

definition fround :: "bool \<Rightarrow> int \<Rightarrow> int \<Rightarrow> float32" where
  "fround sg m e =
     (if m = 0 then pack sg 0
      else
        let q = max (e + bitlen m - 24) (- 149);
            m' = (if q \<le> e then m * 2 ^ nat (e - q) else rne_shift m (nat (q - e)));
            b = (q + 149) * 2 ^ 23 + m'
        in if inf_bits \<le> b then pack sg inf_bits else pack sg b)"

text \<open>Rounding of the quotient \<open>(-1)\<^sup>s * (m / n) * 2\<^sup>e\<close> (\<open>m > 0\<close>, \<open>n > 0\<close>): 64 further
  quotient bits and a sticky bit for the remainder decide the rounding.\<close>

definition fround_quot :: "bool \<Rightarrow> int \<Rightarrow> int \<Rightarrow> int \<Rightarrow> float32" where
  "fround_quot sg m n e =
     (let q = (m * 2 ^ 64) div n; r = (m * 2 ^ 64) mod n
      in fround sg (2 * q + (if r = 0 then 0 else 1)) (e - 65))"

definition fneg :: "float32 \<Rightarrow> float32" where
  "fneg a = a XOR 0x80000000"

definition fmul :: "float32 \<Rightarrow> float32 \<Rightarrow> float32" where
  "fmul a b =
     (case decode a of
        NaN \<Rightarrow> qNaN
      | Inf sa \<Rightarrow>
          (case decode b of
             NaN \<Rightarrow> qNaN
           | Inf sb \<Rightarrow> pack (sa \<noteq> sb) inf_bits
           | Fin sb mb eb \<Rightarrow> if mb = 0 then qNaN else pack (sa \<noteq> sb) inf_bits)
      | Fin sa ma ea \<Rightarrow>
          (case decode b of
             NaN \<Rightarrow> qNaN
           | Inf sb \<Rightarrow> if ma = 0 then qNaN else pack (sa \<noteq> sb) inf_bits
           | Fin sb mb eb \<Rightarrow> fround (sa \<noteq> sb) (ma * mb) (ea + eb)))"

definition signed :: "bool \<Rightarrow> int \<Rightarrow> int" where
  "signed sg m = (if sg then - m else m)"

definition fadd :: "float32 \<Rightarrow> float32 \<Rightarrow> float32" where
  "fadd a b =
     (case decode a of
        NaN \<Rightarrow> qNaN
      | Inf sa \<Rightarrow>
          (case decode b of
             NaN \<Rightarrow> qNaN
           | Inf sb \<Rightarrow> if sa = sb then pack sa inf_bits else qNaN
           | Fin sb mb eb \<Rightarrow> pack sa inf_bits)
      | Fin sa ma ea \<Rightarrow>
          (case decode b of
             NaN \<Rightarrow> qNaN
           | Inf sb \<Rightarrow> pack sb inf_bits
           | Fin sb mb eb \<Rightarrow>
               (let g = min ea eb;
                    t = signed sa ma * 2 ^ nat (ea - g) + signed sb mb * 2 ^ nat (eb - g)
                in if t = 0 then pack (sa \<and> sb) 0 else fround (t < 0) \<bar>t\<bar> g)))"

definition fsub :: "float32 \<Rightarrow> float32 \<Rightarrow> float32" where
  "fsub a b = fadd a (fneg b)"

definition fdiv :: "float32 \<Rightarrow> float32 \<Rightarrow> float32" where
  "fdiv a b =
     (case decode a of
        NaN \<Rightarrow> qNaN
      | Inf sa \<Rightarrow>
          (case decode b of
             NaN \<Rightarrow> qNaN
           | Inf sb \<Rightarrow> qNaN
           | Fin sb mb eb \<Rightarrow> pack (sa \<noteq> sb) inf_bits)
      | Fin sa ma ea \<Rightarrow>
          (case decode b of
             NaN \<Rightarrow> qNaN
           | Inf sb \<Rightarrow> pack (sa \<noteq> sb) 0
           | Fin sb mb eb \<Rightarrow>
               if mb = 0 then (if ma = 0 then qNaN else pack (sa \<noteq> sb) inf_bits)
               else if ma = 0 then pack (sa \<noteq> sb) 0
               else fround_quot (sa \<noteq> sb) ma mb (ea - eb)))"

text \<open>\<open>a == 0.0f\<close>: true of both zeros, false of NaN.\<close>

definition feq0 :: "float32 \<Rightarrow> bool" where
  "feq0 a = (a AND 0x7FFFFFFF = 0)"

text \<open>A decimal literal \<open>p/q\<close> with the suffix \<open>f\<close>: the nearest binary32 value.\<close>

definition flit :: "int \<Rightarrow> int \<Rightarrow> float32" where
  "flit p q = fround_quot False p q 0"

section \<open>Fast inverse square root (\<open>madgwick::invSqrt\<close>)\<close>

text \<open>
  The source reads the float through \<open>long*\<close> and writes the integer back through
  \<open>float*\<close>.  How many bytes line 67 reads depends on the size of \<open>long\<close>, which the
  language leaves to the platform.  \<open>invSqrt\<close> is the routine where \<open>long\<close> has the 32 bits
  that \<open>float\<close> occupies (ILP32 and LLP64 platforms), which is what the bit trick is
  written for; \<open>>>\<close> on the signed \<open>long\<close> is the arithmetic shift, and the subtraction
  wraps around.  The update below calls this routine.
\<close>

definition invSqrt :: "float32 \<Rightarrow> float32" where
  "invSqrt a =
     (let halfx = fmul (flit 5 10) a;
          y = a;
          i = (y :: 32 word);
          i = 0x5f3759df - signed_drop_bit 1 i;
          y = (i :: float32);
          y = fmul y (fsub (flit 15 10) (fmul (fmul halfx y) y))
      in y)"

text \<open>
  Where \<open>long\<close> has 64 bits (LP64 platforms), line 67 reads eight bytes: the four of \<open>y\<close>
  and the four that follow \<open>y\<close> in memory, which on a little-endian machine are the upper
  half of \<open>i\<close>.  What those four bytes hold is outside the language; they are the
  parameter \<open>adjacent\<close>.  Line 68 computes in 64 bits, and line 69 reads the lower four
  bytes of \<open>i\<close> back.
\<close>

definition invSqrt_long64 :: "32 word \<Rightarrow> float32 \<Rightarrow> float32" where
  "invSqrt_long64 adjacent a =
     (let halfx = fmul (flit 5 10) a;
          y = a;
          i = (word_cat adjacent y :: 64 word);
          i = 0x5f3759df - signed_drop_bit 1 i;
          y = (ucast i :: float32);
          y = fmul y (fsub (flit 15 10) (fmul (fmul halfx y) y))
      in y)"

section \<open>Data types of \<open>madgwickIMU.hpp\<close>\<close>

text \<open>\<open>struct quat\<close> and \<open>struct coords3d\<close>, with the member defaults of the source.\<close>

record quat =
  x :: float32
  y :: float32
  z :: float32
  s :: float32

record coords3d =
  x :: float32
  y :: float32
  z :: float32

text \<open>The private members of \<open>class madgwick\<close>.\<close>

record madgwick =
  sampleFreq :: float32
  beta :: float32
  q0 :: float32
  q1 :: float32
  q2 :: float32
  q3 :: float32

text \<open>\<open>madgwick::madgwick()\<close>: the body is empty, the members take their default
  initialisers \<open>0.015f\<close>, \<open>0.1f\<close>, \<open>1.0f\<close>, \<open>0.0f\<close>, \<open>0.0f\<close>, \<open>0.0f\<close>.\<close>

definition madgwick_ctor :: madgwick where
  "madgwick_ctor =
     \<lparr>sampleFreq = flit 15 1000, beta = flit 1 10,
      q0 = flit 1 1, q1 = flit 0 1, q2 = flit 0 1, q3 = flit 0 1\<rparr>"

section \<open>IMU algorithm update (\<open>madgwick::MadgwickAHRSupdateIMU\<close>)\<close>

text \<open>
  The member function reads and writes the object: the model takes the object and returns
  it updated, together with the returned \<open>quat\<close>.  The locals keep their names (\<open>_2q0\<close>
  is written \<open>two_q0\<close>, and so on); a local or member that is assigned again is bound again.
\<close>

definition MadgwickAHRSupdateIMU :: "madgwick \<Rightarrow> coords3d \<Rightarrow> coords3d \<Rightarrow> madgwick \<times> quat" where
  "MadgwickAHRSupdateIMU st gyro accel =
     (let
        \<comment> \<open>Rate of change of quaternion from gyroscope\<close>
        qDot1 = fmul (flit 5 10)
                  (fsub (fsub (fmul (fneg (q1 st)) (coords3d.x gyro)) (fmul (q2 st) (coords3d.y gyro)))
                        (fmul (q3 st) (coords3d.z gyro)));
        qDot2 = fmul (flit 5 10)
                  (fsub (fadd (fmul (q0 st) (coords3d.x gyro)) (fmul (q2 st) (coords3d.z gyro)))
                        (fmul (q3 st) (coords3d.y gyro)));
        qDot3 = fmul (flit 5 10)
                  (fadd (fsub (fmul (q0 st) (coords3d.y gyro)) (fmul (q1 st) (coords3d.z gyro)))
                        (fmul (q3 st) (coords3d.x gyro)));
        qDot4 = fmul (flit 5 10)
                  (fsub (fadd (fmul (q0 st) (coords3d.z gyro)) (fmul (q1 st) (coords3d.y gyro)))
                        (fmul (q2 st) (coords3d.x gyro)));
        \<comment> \<open>Compute feedback only if accelerometer measurement valid\<close>
        (qDot1, qDot2, qDot3, qDot4) =
          (if \<not> (feq0 (coords3d.x accel) \<and> feq0 (coords3d.y accel) \<and> feq0 (coords3d.z accel)) then
             let
               \<comment> \<open>Normalise accelerometer measurement\<close>
               recipNorm = invSqrt
                 (fadd (fadd (fmul (coords3d.x accel) (coords3d.x accel))
                             (fmul (coords3d.y accel) (coords3d.y accel)))
                       (fmul (coords3d.z accel) (coords3d.z accel)));
               accel = accel\<lparr>coords3d.x := fmul (coords3d.x accel) recipNorm\<rparr>;
               accel = accel\<lparr>coords3d.y := fmul (coords3d.y accel) recipNorm\<rparr>;
               accel = accel\<lparr>coords3d.z := fmul (coords3d.z accel) recipNorm\<rparr>;
               \<comment> \<open>Auxiliary variables to avoid repeated arithmetic\<close>
               two_q0 = fmul (flit 2 1) (q0 st);
               two_q1 = fmul (flit 2 1) (q1 st);
               two_q2 = fmul (flit 2 1) (q2 st);
               two_q3 = fmul (flit 2 1) (q3 st);
               four_q0 = fmul (flit 4 1) (q0 st);
               four_q1 = fmul (flit 4 1) (q1 st);
               four_q2 = fmul (flit 4 1) (q2 st);
               eight_q1 = fmul (flit 8 1) (q1 st);
               eight_q2 = fmul (flit 8 1) (q2 st);
               q0q0 = fmul (q0 st) (q0 st);
               q1q1 = fmul (q1 st) (q1 st);
               q2q2 = fmul (q2 st) (q2 st);
               q3q3 = fmul (q3 st) (q3 st);
               \<comment> \<open>Gradient decent algorithm corrective step\<close>
               s0 = fsub (fadd (fadd (fmul four_q0 q2q2) (fmul two_q2 (coords3d.x accel)))
                               (fmul four_q0 q1q1))
                         (fmul two_q1 (coords3d.y accel));
               s1 = fadd (fadd (fadd (fsub (fsub (fadd (fsub (fmul four_q1 q3q3)
                                                             (fmul two_q3 (coords3d.x accel)))
                                                       (fmul (fmul (flit 4 1) q0q0) (q1 st)))
                                                 (fmul two_q0 (coords3d.y accel)))
                                           four_q1)
                                     (fmul eight_q1 q1q1))
                               (fmul eight_q1 q2q2))
                         (fmul four_q1 (coords3d.z accel));
               s2 = fadd (fadd (fadd (fsub (fsub (fadd (fadd (fmul (fmul (flit 4 1) q0q0) (q2 st))
                                                             (fmul two_q0 (coords3d.x accel)))
                                                       (fmul four_q2 q3q3))
                                                 (fmul two_q3 (coords3d.y accel)))
                                           four_q2)
                                     (fmul eight_q2 q1q1))
                               (fmul eight_q2 q2q2))
                         (fmul four_q2 (coords3d.z accel));
               s3 = fsub (fadd (fsub (fmul (fmul (flit 4 1) q1q1) (q3 st))
                                     (fmul two_q1 (coords3d.x accel)))
                               (fmul (fmul (flit 4 1) q2q2) (q3 st)))
                         (fmul two_q2 (coords3d.y accel));
               \<comment> \<open>normalise step magnitude\<close>
               recipNorm = invSqrt
                 (fadd (fadd (fadd (fmul s0 s0) (fmul s1 s1)) (fmul s2 s2)) (fmul s3 s3));
               s0 = fmul s0 recipNorm;
               s1 = fmul s1 recipNorm;
               s2 = fmul s2 recipNorm;
               s3 = fmul s3 recipNorm;
               \<comment> \<open>Apply feedback step\<close>
               qDot1 = fsub qDot1 (fmul (beta st) s0);
               qDot2 = fsub qDot2 (fmul (beta st) s1);
               qDot3 = fsub qDot3 (fmul (beta st) s2);
               qDot4 = fsub qDot4 (fmul (beta st) s3)
             in (qDot1, qDot2, qDot3, qDot4)
           else (qDot1, qDot2, qDot3, qDot4));
        \<comment> \<open>Integrate rate of change of quaternion to yield quaternion\<close>
        st = st\<lparr>q0 := fadd (q0 st) (fmul qDot1 (fdiv (flit 1 1) (sampleFreq st)))\<rparr>;
        st = st\<lparr>q1 := fadd (q1 st) (fmul qDot2 (fdiv (flit 1 1) (sampleFreq st)))\<rparr>;
        st = st\<lparr>q2 := fadd (q2 st) (fmul qDot3 (fdiv (flit 1 1) (sampleFreq st)))\<rparr>;
        st = st\<lparr>q3 := fadd (q3 st) (fmul qDot4 (fdiv (flit 1 1) (sampleFreq st)))\<rparr>;
        \<comment> \<open>Normalise quaternion\<close>
        recipNorm = invSqrt
          (fadd (fadd (fadd (fmul (q0 st) (q0 st)) (fmul (q1 st) (q1 st)))
                      (fmul (q2 st) (q2 st)))
                (fmul (q3 st) (q3 st)));
        st = st\<lparr>q0 := fmul (q0 st) recipNorm\<rparr>;
        st = st\<lparr>q1 := fmul (q1 st) recipNorm\<rparr>;
        st = st\<lparr>q2 := fmul (q2 st) recipNorm\<rparr>;
        st = st\<lparr>q3 := fmul (q3 st) recipNorm\<rparr>;
        \<comment> \<open>store quaternion\<close>
        q = \<lparr>quat.x = flit 0 1, quat.y = flit 0 1, quat.z = flit 0 1, quat.s = flit 0 1\<rparr>;
        q = q\<lparr>quat.x := q0 st\<rparr>;
        q = q\<lparr>quat.y := q1 st\<rparr>;
        q = q\<lparr>quat.z := q2 st\<rparr>;
        q = q\<lparr>quat.s := q3 st\<rparr>
      in (st, q))"

section \<open>The steps of the update\<close>

text \<open>The same code, cut at the comments of the source into one function for each step.
  Lemma \<open>update_steps\<close> below shows that \<open>MadgwickAHRSupdateIMU\<close> is their composition.\<close>

type_synonym float4 = "float32 \<times> float32 \<times> float32 \<times> float32"

text \<open>Lines 84 to 87: rate of change of the quaternion from the gyroscope.\<close>

definition gyro_rate :: "madgwick \<Rightarrow> coords3d \<Rightarrow> float4" where
  "gyro_rate st gyro =
     (let
        qDot1 = fmul (flit 5 10)
                  (fsub (fsub (fmul (fneg (q1 st)) (coords3d.x gyro)) (fmul (q2 st) (coords3d.y gyro)))
                        (fmul (q3 st) (coords3d.z gyro)));
        qDot2 = fmul (flit 5 10)
                  (fsub (fadd (fmul (q0 st) (coords3d.x gyro)) (fmul (q2 st) (coords3d.z gyro)))
                        (fmul (q3 st) (coords3d.y gyro)));
        qDot3 = fmul (flit 5 10)
                  (fadd (fsub (fmul (q0 st) (coords3d.y gyro)) (fmul (q1 st) (coords3d.z gyro)))
                        (fmul (q3 st) (coords3d.x gyro)));
        qDot4 = fmul (flit 5 10)
                  (fsub (fadd (fmul (q0 st) (coords3d.z gyro)) (fmul (q1 st) (coords3d.y gyro)))
                        (fmul (q2 st) (coords3d.x gyro)))
      in (qDot1, qDot2, qDot3, qDot4))"

text \<open>Line 90: the condition under which the feedback block is skipped.\<close>

definition accel_is_zero :: "coords3d \<Rightarrow> bool" where
  "accel_is_zero accel \<longleftrightarrow>
     feq0 (coords3d.x accel) \<and> feq0 (coords3d.y accel) \<and> feq0 (coords3d.z accel)"

text \<open>Lines 93 to 96: the accelerometer measurement, normalised.\<close>

definition normalise_accel :: "coords3d \<Rightarrow> coords3d" where
  "normalise_accel accel =
     (let
        recipNorm = invSqrt
          (fadd (fadd (fmul (coords3d.x accel) (coords3d.x accel))
                      (fmul (coords3d.y accel) (coords3d.y accel)))
                (fmul (coords3d.z accel) (coords3d.z accel)));
        accel = accel\<lparr>coords3d.x := fmul (coords3d.x accel) recipNorm\<rparr>;
        accel = accel\<lparr>coords3d.y := fmul (coords3d.y accel) recipNorm\<rparr>;
        accel = accel\<lparr>coords3d.z := fmul (coords3d.z accel) recipNorm\<rparr>
      in accel)"

text \<open>Lines 99 to 117: the gradient terms, from the state and the normalised measurement.\<close>

definition gradient :: "madgwick \<Rightarrow> coords3d \<Rightarrow> float4" where
  "gradient st accel =
     (let
        two_q0 = fmul (flit 2 1) (q0 st);
        two_q1 = fmul (flit 2 1) (q1 st);
        two_q2 = fmul (flit 2 1) (q2 st);
        two_q3 = fmul (flit 2 1) (q3 st);
        four_q0 = fmul (flit 4 1) (q0 st);
        four_q1 = fmul (flit 4 1) (q1 st);
        four_q2 = fmul (flit 4 1) (q2 st);
        eight_q1 = fmul (flit 8 1) (q1 st);
        eight_q2 = fmul (flit 8 1) (q2 st);
        q0q0 = fmul (q0 st) (q0 st);
        q1q1 = fmul (q1 st) (q1 st);
        q2q2 = fmul (q2 st) (q2 st);
        q3q3 = fmul (q3 st) (q3 st);
        s0 = fsub (fadd (fadd (fmul four_q0 q2q2) (fmul two_q2 (coords3d.x accel)))
                        (fmul four_q0 q1q1))
                  (fmul two_q1 (coords3d.y accel));
        s1 = fadd (fadd (fadd (fsub (fsub (fadd (fsub (fmul four_q1 q3q3)
                                                      (fmul two_q3 (coords3d.x accel)))
                                                (fmul (fmul (flit 4 1) q0q0) (q1 st)))
                                          (fmul two_q0 (coords3d.y accel)))
                                    four_q1)
                              (fmul eight_q1 q1q1))
                        (fmul eight_q1 q2q2))
                  (fmul four_q1 (coords3d.z accel));
        s2 = fadd (fadd (fadd (fsub (fsub (fadd (fadd (fmul (fmul (flit 4 1) q0q0) (q2 st))
                                                      (fmul two_q0 (coords3d.x accel)))
                                                (fmul four_q2 q3q3))
                                          (fmul two_q3 (coords3d.y accel)))
                                    four_q2)
                              (fmul eight_q2 q1q1))
                        (fmul eight_q2 q2q2))
                  (fmul four_q2 (coords3d.z accel));
        s3 = fsub (fadd (fsub (fmul (fmul (flit 4 1) q1q1) (q3 st))
                              (fmul two_q1 (coords3d.x accel)))
                        (fmul (fmul (flit 4 1) q2q2) (q3 st)))
                  (fmul two_q2 (coords3d.y accel))
      in (s0, s1, s2, s3))"

text \<open>Line 118: the argument of the \<open>invSqrt\<close> call that normalises the gradient.\<close>

definition gradient_sumsq :: "float4 \<Rightarrow> float32" where
  "gradient_sumsq g =
     (case g of (s0, s1, s2, s3) \<Rightarrow>
        fadd (fadd (fadd (fmul s0 s0) (fmul s1 s1)) (fmul s2 s2)) (fmul s3 s3))"

text \<open>Lines 118 to 122: the gradient, normalised.\<close>

definition normalise_gradient :: "float4 \<Rightarrow> float4" where
  "normalise_gradient g =
     (case g of (s0, s1, s2, s3) \<Rightarrow>
        let recipNorm = invSqrt (gradient_sumsq g);
            s0 = fmul s0 recipNorm;
            s1 = fmul s1 recipNorm;
            s2 = fmul s2 recipNorm;
            s3 = fmul s3 recipNorm
        in (s0, s1, s2, s3))"

text \<open>Lines 125 to 128: the feedback step.\<close>

definition apply_feedback :: "madgwick \<Rightarrow> float4 \<Rightarrow> float4 \<Rightarrow> float4" where
  "apply_feedback st d g =
     (case (d, g) of ((qDot1, qDot2, qDot3, qDot4), (s0, s1, s2, s3)) \<Rightarrow>
        let qDot1 = fsub qDot1 (fmul (beta st) s0);
            qDot2 = fsub qDot2 (fmul (beta st) s1);
            qDot3 = fsub qDot3 (fmul (beta st) s2);
            qDot4 = fsub qDot4 (fmul (beta st) s3)
        in (qDot1, qDot2, qDot3, qDot4))"

text \<open>Lines 84 to 129: the rate of change that the integration uses.\<close>

definition qDot :: "madgwick \<Rightarrow> coords3d \<Rightarrow> coords3d \<Rightarrow> float4" where
  "qDot st gyro accel =
     (if \<not> accel_is_zero accel
      then apply_feedback st (gyro_rate st gyro)
             (normalise_gradient (gradient st (normalise_accel accel)))
      else gyro_rate st gyro)"

text \<open>Lines 132 to 135: the four assignments, one after the other.\<close>

definition integrate :: "madgwick \<Rightarrow> float4 \<Rightarrow> madgwick" where
  "integrate st d =
     (case d of (qDot1, qDot2, qDot3, qDot4) \<Rightarrow>
        let st = st\<lparr>q0 := fadd (q0 st) (fmul qDot1 (fdiv (flit 1 1) (sampleFreq st)))\<rparr>;
            st = st\<lparr>q1 := fadd (q1 st) (fmul qDot2 (fdiv (flit 1 1) (sampleFreq st)))\<rparr>;
            st = st\<lparr>q2 := fadd (q2 st) (fmul qDot3 (fdiv (flit 1 1) (sampleFreq st)))\<rparr>;
            st = st\<lparr>q3 := fadd (q3 st) (fmul qDot4 (fdiv (flit 1 1) (sampleFreq st)))\<rparr>
        in st)"

text \<open>Line 138: the argument of the \<open>invSqrt\<close> call that normalises the quaternion.\<close>

definition quat_sumsq :: "madgwick \<Rightarrow> float32" where
  "quat_sumsq st =
     fadd (fadd (fadd (fmul (q0 st) (q0 st)) (fmul (q1 st) (q1 st))) (fmul (q2 st) (q2 st)))
          (fmul (q3 st) (q3 st))"

text \<open>Lines 138 to 142.\<close>

definition normalise_quat :: "madgwick \<Rightarrow> madgwick" where
  "normalise_quat st =
     (let recipNorm = invSqrt (quat_sumsq st);
          st = st\<lparr>q0 := fmul (q0 st) recipNorm\<rparr>;
          st = st\<lparr>q1 := fmul (q1 st) recipNorm\<rparr>;
          st = st\<lparr>q2 := fmul (q2 st) recipNorm\<rparr>;
          st = st\<lparr>q3 := fmul (q3 st) recipNorm\<rparr>
      in st)"

text \<open>Lines 145 to 151: the returned \<open>quat\<close>.\<close>

definition store_quat :: "madgwick \<Rightarrow> quat" where
  "store_quat st =
     (let q = \<lparr>quat.x = flit 0 1, quat.y = flit 0 1, quat.z = flit 0 1, quat.s = flit 0 1\<rparr>;
          q = q\<lparr>quat.x := q0 st\<rparr>;
          q = q\<lparr>quat.y := q1 st\<rparr>;
          q = q\<lparr>quat.z := q2 st\<rparr>;
          q = q\<lparr>quat.s := q3 st\<rparr>
      in q)"

section \<open>The formulas of the specification\<close>

text \<open>Section 4.2, step 1, of the specification: \<open>qDot1 = 0.5*(-q1*gx - q2*gy - q3*gz)\<close>
  and the three formulas after it.  Every product, sum and difference is one float
  operation; \<open>*\<close> binds tighter than \<open>+\<close> and \<open>-\<close>, and both associate to the left.\<close>

definition spec_qDot1 :: "float32 \<Rightarrow> float32 \<Rightarrow> float32 \<Rightarrow> float32 \<Rightarrow> float32 \<Rightarrow> float32 \<Rightarrow> float32 \<Rightarrow> float32" where
  "spec_qDot1 a0 a1 a2 a3 gx gy gz =
     fmul (flit 5 10) (fsub (fsub (fmul (fneg a1) gx) (fmul a2 gy)) (fmul a3 gz))"

definition spec_qDot2 :: "float32 \<Rightarrow> float32 \<Rightarrow> float32 \<Rightarrow> float32 \<Rightarrow> float32 \<Rightarrow> float32 \<Rightarrow> float32 \<Rightarrow> float32" where
  "spec_qDot2 a0 a1 a2 a3 gx gy gz =
     fmul (flit 5 10) (fsub (fadd (fmul a0 gx) (fmul a2 gz)) (fmul a3 gy))"

definition spec_qDot3 :: "float32 \<Rightarrow> float32 \<Rightarrow> float32 \<Rightarrow> float32 \<Rightarrow> float32 \<Rightarrow> float32 \<Rightarrow> float32 \<Rightarrow> float32" where
  "spec_qDot3 a0 a1 a2 a3 gx gy gz =
     fmul (flit 5 10) (fadd (fsub (fmul a0 gy) (fmul a1 gz)) (fmul a3 gx))"

definition spec_qDot4 :: "float32 \<Rightarrow> float32 \<Rightarrow> float32 \<Rightarrow> float32 \<Rightarrow> float32 \<Rightarrow> float32 \<Rightarrow> float32 \<Rightarrow> float32" where
  "spec_qDot4 a0 a1 a2 a3 gx gy gz =
     fmul (flit 5 10) (fsub (fadd (fmul a0 gz) (fmul a1 gy)) (fmul a2 gx))"

text \<open>Step 2b: \<open>s0 = 4*q0*q2\<^sup>2 + 2*q2*ax + 4*q0*q1\<^sup>2 - 2*q1*ay\<close> and the three formulas after
  it, a square \<open>q\<^sup>2\<close> being the product \<open>q*q\<close>.\<close>

definition sq :: "float32 \<Rightarrow> float32" where
  "sq a = fmul a a"

definition spec_s0 :: "float32 \<Rightarrow> float32 \<Rightarrow> float32 \<Rightarrow> float32 \<Rightarrow> float32 \<Rightarrow> float32 \<Rightarrow> float32 \<Rightarrow> float32" where
  "spec_s0 a0 a1 a2 a3 ax ay az =
     fsub (fadd (fadd (fmul (fmul (flit 4 1) a0) (sq a2)) (fmul (fmul (flit 2 1) a2) ax))
                (fmul (fmul (flit 4 1) a0) (sq a1)))
          (fmul (fmul (flit 2 1) a1) ay)"

definition spec_s1 :: "float32 \<Rightarrow> float32 \<Rightarrow> float32 \<Rightarrow> float32 \<Rightarrow> float32 \<Rightarrow> float32 \<Rightarrow> float32 \<Rightarrow> float32" where
  "spec_s1 a0 a1 a2 a3 ax ay az =
     fadd (fadd (fadd (fsub (fsub (fadd (fsub (fmul (fmul (flit 4 1) a1) (sq a3))
                                              (fmul (fmul (flit 2 1) a3) ax))
                                        (fmul (fmul (flit 4 1) (sq a0)) a1))
                                  (fmul (fmul (flit 2 1) a0) ay))
                            (fmul (flit 4 1) a1))
                      (fmul (fmul (flit 8 1) a1) (sq a1)))
                (fmul (fmul (flit 8 1) a1) (sq a2)))
          (fmul (fmul (flit 4 1) a1) az)"

definition spec_s2 :: "float32 \<Rightarrow> float32 \<Rightarrow> float32 \<Rightarrow> float32 \<Rightarrow> float32 \<Rightarrow> float32 \<Rightarrow> float32 \<Rightarrow> float32" where
  "spec_s2 a0 a1 a2 a3 ax ay az =
     fadd (fadd (fadd (fsub (fsub (fadd (fadd (fmul (fmul (flit 4 1) (sq a0)) a2)
                                              (fmul (fmul (flit 2 1) a0) ax))
                                        (fmul (fmul (flit 4 1) a2) (sq a3)))
                                  (fmul (fmul (flit 2 1) a3) ay))
                            (fmul (flit 4 1) a2))
                      (fmul (fmul (flit 8 1) a2) (sq a1)))
                (fmul (fmul (flit 8 1) a2) (sq a2)))
          (fmul (fmul (flit 4 1) a2) az)"

definition spec_s3 :: "float32 \<Rightarrow> float32 \<Rightarrow> float32 \<Rightarrow> float32 \<Rightarrow> float32 \<Rightarrow> float32 \<Rightarrow> float32 \<Rightarrow> float32" where
  "spec_s3 a0 a1 a2 a3 ax ay az =
     fsub (fadd (fsub (fmul (fmul (flit 4 1) (sq a1)) a3) (fmul (fmul (flit 2 1) a1) ax))
                (fmul (fmul (flit 4 1) (sq a2)) a3))
          (fmul (fmul (flit 2 1) a2) ay)"

text \<open>Steps 1 and 2 together, in the words of the specification: the four gyroscope
  formulas; when the measurement is not the zero vector, the measurement normalised by the
  inverse square root of its sum of squares (2a), the four gradient formulas (2b), the
  gradient normalised in the same way (2c), and \<open>beta\<close> times each normalised term
  subtracted (2d).\<close>

definition spec_rate :: "madgwick \<Rightarrow> coords3d \<Rightarrow> coords3d \<Rightarrow> float4" where
  "spec_rate st gyro accel =
     (let gx = coords3d.x gyro; gy = coords3d.y gyro; gz = coords3d.z gyro;
          d1 = spec_qDot1 (q0 st) (q1 st) (q2 st) (q3 st) gx gy gz;
          d2 = spec_qDot2 (q0 st) (q1 st) (q2 st) (q3 st) gx gy gz;
          d3 = spec_qDot3 (q0 st) (q1 st) (q2 st) (q3 st) gx gy gz;
          d4 = spec_qDot4 (q0 st) (q1 st) (q2 st) (q3 st) gx gy gz
      in if accel_is_zero accel then (d1, d2, d3, d4)
         else
           let r = invSqrt (fadd (fadd (sq (coords3d.x accel)) (sq (coords3d.y accel)))
                                 (sq (coords3d.z accel)));
               ax = fmul (coords3d.x accel) r;
               ay = fmul (coords3d.y accel) r;
               az = fmul (coords3d.z accel) r;
               s0 = spec_s0 (q0 st) (q1 st) (q2 st) (q3 st) ax ay az;
               s1 = spec_s1 (q0 st) (q1 st) (q2 st) (q3 st) ax ay az;
               s2 = spec_s2 (q0 st) (q1 st) (q2 st) (q3 st) ax ay az;
               s3 = spec_s3 (q0 st) (q1 st) (q2 st) (q3 st) ax ay az;
               n = invSqrt (fadd (fadd (fadd (sq s0) (sq s1)) (sq s2)) (sq s3))
           in (fsub d1 (fmul (beta st) (fmul s0 n)), fsub d2 (fmul (beta st) (fmul s1 n)),
               fsub d3 (fmul (beta st) (fmul s2 n)), fsub d4 (fmul (beta st) (fmul s3 n))))"

section \<open>Values and the inputs of \<open>main.cpp\<close>\<close>

text \<open>The real number that a finite bit pattern denotes (0 for an infinity or a NaN).\<close>

definition valof :: "float32 \<Rightarrow> real" where
  "valof w =
     (case decode w of
        NaN \<Rightarrow> 0
      | Inf sg \<Rightarrow> 0
      | Fin sg m e \<Rightarrow>
          if 0 \<le> e then of_int (signed sg m) * 2 ^ nat e else of_int (signed sg m) / 2 ^ nat (- e))"

definition is_finite :: "float32 \<Rightarrow> bool" where
  "is_finite w = (case decode w of NaN \<Rightarrow> False | Inf sg \<Rightarrow> False | Fin sg m e \<Rightarrow> True)"

text \<open>\<open>main.cpp\<close> calls \<open>mw.MadgwickAHRSupdateIMU({ 0.05, 0.065, 0.9 }, { 0.0, 0.0, 0.0 })\<close>
  on a fresh filter.\<close>

definition main_gyro :: coords3d where
  "main_gyro = \<lparr>coords3d.x = flit 5 100, coords3d.y = flit 65 1000, coords3d.z = flit 9 10\<rparr>"

definition main_accel :: coords3d where
  "main_accel = \<lparr>coords3d.x = flit 0 1, coords3d.y = flit 0 1, coords3d.z = flit 0 1\<rparr>"

text \<open>Further inputs: no rotation, and gravity measured along the x axis and the z axis.\<close>

definition gyro_zero :: coords3d where
  "gyro_zero = \<lparr>coords3d.x = flit 0 1, coords3d.y = flit 0 1, coords3d.z = flit 0 1\<rparr>"

definition accel_x :: coords3d where
  "accel_x = \<lparr>coords3d.x = flit 1 1, coords3d.y = flit 0 1, coords3d.z = flit 0 1\<rparr>"

definition accel_z :: coords3d where
  "accel_z = \<lparr>coords3d.x = flit 0 1, coords3d.y = flit 0 1, coords3d.z = flit 1 1\<rparr>"

section \<open>Notions for the analysis of the arithmetic\<close>

text \<open>Powers of two with an integer exponent.\<close>

definition pow2 :: "int \<Rightarrow> real" where
  "pow2 e = (if 0 \<le> e then 2 ^ nat e else 1 / 2 ^ nat (- e))"

text \<open>The exponent of the last place and the significand that \<open>fround\<close> computes.\<close>

definition round_exp :: "int \<Rightarrow> int \<Rightarrow> int" where
  "round_exp m e = max (e + bitlen m - 24) (- 149)"

definition round_sig :: "int \<Rightarrow> int \<Rightarrow> int" where
  "round_sig m e =
     (if round_exp m e \<le> e then m * 2 ^ nat (e - round_exp m e)
      else rne_shift m (nat (round_exp m e - e)))"

definition round_bits :: "int \<Rightarrow> int \<Rightarrow> int" where
  "round_bits m e = (round_exp m e + 149) * 2 ^ 23 + round_sig m e"

text \<open>The positive normal numbers: sign bit clear, biased exponent from 1 to 254.\<close>

definition is_normal_pos :: "float32 \<Rightarrow> bool" where
  "is_normal_pos a \<longleftrightarrow> 2 ^ 23 \<le> uint a \<and> uint a < 255 * 2 ^ 23"

text \<open>The rate that leaves every component of the quaternion where it is.\<close>

definition rate_is_zero :: "float4 \<Rightarrow> bool" where
  "rate_is_zero d = (case d of (d1, d2, d3, d4) \<Rightarrow> feq0 d1 \<and> feq0 d2 \<and> feq0 d3 \<and> feq0 d4)"

text \<open>The squared norm of the stored quaternion and of a returned \<open>quat\<close>, as real numbers.\<close>

definition state_norm2 :: "madgwick \<Rightarrow> real" where
  "state_norm2 st = (valof (q0 st))\<^sup>2 + (valof (q1 st))\<^sup>2 + (valof (q2 st))\<^sup>2 + (valof (q3 st))\<^sup>2"

definition quat_norm2 :: "quat \<Rightarrow> real" where
  "quat_norm2 q =
     (valof (quat.x q))\<^sup>2 + (valof (quat.y q))\<^sup>2 + (valof (quat.z q))\<^sup>2 + (valof (quat.s q))\<^sup>2"

text \<open>One more input: gravity measured off the axes, \<open>accel = (0.1, 0.2, 0.97)\<close>.\<close>

definition accel_tilted :: coords3d where
  "accel_tilted = \<lparr>coords3d.x = flit 1 10, coords3d.y = flit 2 10, coords3d.z = flit 97 100\<rparr>"

section \<open>The inverse square root as the specification describes it\<close>



section \<open>The update is the composition of its steps\<close>

lemma update_steps:
  "MadgwickAHRSupdateIMU st gyro accel =
     (normalise_quat (integrate st (qDot st gyro accel)),
      store_quat (normalise_quat (integrate st (qDot st gyro accel))))"
  by (simp add: MadgwickAHRSupdateIMU_def normalise_quat_def integrate_def qDot_def accel_is_zero_def
      apply_feedback_def gyro_rate_def gradient_def normalise_accel_def
      normalise_gradient_def gradient_sumsq_def quat_sumsq_def store_quat_def Let_def)

section \<open>Evaluation of the update on concrete inputs\<close>

lemma ctor_bits:
  "madgwick_ctor =
     \<lparr>sampleFreq = 0x3C75C28F, beta = 0x3DCCCCCD, q0 = 0x3F800000, q1 = 0, q2 = 0, q3 = 0\<rparr>"
  by code_simp

lemma store_quat_eq:
  "store_quat st = \<lparr>quat.x = q0 st, quat.y = q1 st, quat.z = q2 st, quat.s = q3 st\<rparr>"
  by (simp add: store_quat_def Let_def)

lemma integrate_eq:
  "integrate st (d1, d2, d3, d4) =
     st\<lparr>q0 := fadd (q0 st) (fmul d1 (fdiv (flit 1 1) (sampleFreq st))),
        q1 := fadd (q1 st) (fmul d2 (fdiv (flit 1 1) (sampleFreq st))),
        q2 := fadd (q2 st) (fmul d3 (fdiv (flit 1 1) (sampleFreq st))),
        q3 := fadd (q3 st) (fmul d4 (fdiv (flit 1 1) (sampleFreq st)))\<rparr>"
  by (simp add: integrate_def Let_def)

lemma normalise_quat_eq:
  "normalise_quat st =
     st\<lparr>q0 := fmul (q0 st) (invSqrt (quat_sumsq st)),
        q1 := fmul (q1 st) (invSqrt (quat_sumsq st)),
        q2 := fmul (q2 st) (invSqrt (quat_sumsq st)),
        q3 := fmul (q3 st) (invSqrt (quat_sumsq st))\<rparr>"
  by (simp add: normalise_quat_def quat_sumsq_def Let_def)

text \<open>The call of \<open>main.cpp\<close>.\<close>

lemma main_accel_zero: "accel_is_zero main_accel"
  by code_simp

lemma main_rate:
  "gyro_rate madgwick_ctor main_gyro = (0x80000000, 0x3CCCCCCD, 0x3D051EB8, 0x3EE66666)"
  by code_simp

lemma main_integrate:
  "integrate madgwick_ctor (0x80000000, 0x3CCCCCCD, 0x3D051EB8, 0x3EE66666) =
     \<lparr>sampleFreq = 0x3C75C28F, beta = 0x3DCCCCCD,
      q0 = 0x3F800000, q1 = 0x3FD55557, q2 = 0x400AAAAB, q3 = 0x41F00001\<rparr>"
  by code_simp

lemma main_normalise:
  "normalise_quat
     \<lparr>sampleFreq = 0x3C75C28F, beta = 0x3DCCCCCD,
      q0 = 0x3F800000, q1 = 0x3FD55557, q2 = 0x400AAAAB, q3 = 0x41F00001\<rparr> =
     \<lparr>sampleFreq = 0x3C75C28F, beta = 0x3DCCCCCD,
      q0 = 0x3D07D8BC, q1 = 0x3D62693B, q2 = 0x3D932ACC, q3 = 0x3F7EB662\<rparr>"
  by code_simp

lemma main_update:
  "MadgwickAHRSupdateIMU madgwick_ctor main_gyro main_accel =
     (\<lparr>sampleFreq = 0x3C75C28F, beta = 0x3DCCCCCD,
       q0 = 0x3D07D8BC, q1 = 0x3D62693B, q2 = 0x3D932ACC, q3 = 0x3F7EB662\<rparr>,
      \<lparr>quat.x = 0x3D07D8BC, quat.y = 0x3D62693B, quat.z = 0x3D932ACC, quat.s = 0x3F7EB662\<rparr>)"
  by (simp add: update_steps qDot_def main_accel_zero main_rate main_integrate main_normalise
      store_quat_eq)


text \<open>No rotation rate and no measured acceleration, on a fresh filter.\<close>

lemma rest_rate: "qDot madgwick_ctor gyro_zero main_accel = (0x80000000, 0, 0, 0)"
  by code_simp

lemma rest_integrate:
  "integrate madgwick_ctor (0x80000000, 0, 0, 0) =
     \<lparr>sampleFreq = 0x3C75C28F, beta = 0x3DCCCCCD, q0 = 0x3F800000, q1 = 0, q2 = 0, q3 = 0\<rparr>"
  by code_simp

lemma rest_normalise:
  "normalise_quat
     \<lparr>sampleFreq = 0x3C75C28F, beta = 0x3DCCCCCD, q0 = 0x3F800000, q1 = 0, q2 = 0, q3 = 0\<rparr> =
     \<lparr>sampleFreq = 0x3C75C28F, beta = 0x3DCCCCCD, q0 = 0x3F7F910F, q1 = 0, q2 = 0, q3 = 0\<rparr>"
  by code_simp

lemma rest_update:
  "fst (MadgwickAHRSupdateIMU madgwick_ctor gyro_zero main_accel) =
     \<lparr>sampleFreq = 0x3C75C28F, beta = 0x3DCCCCCD, q0 = 0x3F7F910F, q1 = 0, q2 = 0, q3 = 0\<rparr>"
  by (simp add: update_steps rest_rate rest_integrate rest_normalise)

text \<open>No rotation rate, gravity measured along the x axis, on a fresh filter.\<close>

lemma accel_x_nonzero: "\<not> accel_is_zero accel_x"
  by code_simp

lemma tilt_accel: "normalise_accel accel_x = \<lparr>coords3d.x = 0x3F7F910F, coords3d.y = 0, coords3d.z = 0\<rparr>"
  by code_simp

lemma tilt_gradient:
  "gradient madgwick_ctor \<lparr>coords3d.x = 0x3F7F910F, coords3d.y = 0, coords3d.z = 0\<rparr> =
     (0, 0, 0x3FFF910F, 0)"
  by code_simp

lemma tilt_normalise_gradient: "normalise_gradient (0, 0, 0x3FFF910F, 0) = (0, 0, 0x3F7F9167, 0)"
  by code_simp

lemma tilt_gyro_rate: "gyro_rate madgwick_ctor gyro_zero = (0x80000000, 0, 0, 0)"
  by code_simp

lemma tilt_feedback:
  "apply_feedback madgwick_ctor (0x80000000, 0, 0, 0) (0, 0, 0x3F7F9167, 0) =
     (0x80000000, 0, 0xBDCC7453, 0)"
  by code_simp

lemma tilt_rate: "qDot madgwick_ctor gyro_zero accel_x = (0x80000000, 0, 0xBDCC7453, 0)"
  by (simp add: qDot_def accel_x_nonzero tilt_accel tilt_gradient tilt_normalise_gradient
      tilt_gyro_rate tilt_feedback)

lemma tilt_integrate:
  "integrate madgwick_ctor (0x80000000, 0, 0xBDCC7453, 0) =
     \<lparr>sampleFreq = 0x3C75C28F, beta = 0x3DCCCCCD, q0 = 0x3F800000, q1 = 0, q2 = 0xC0D4F92D, q3 = 0\<rparr>"
  by code_simp

lemma tilt_normalise:
  "normalise_quat
     \<lparr>sampleFreq = 0x3C75C28F, beta = 0x3DCCCCCD, q0 = 0x3F800000, q1 = 0, q2 = 0xC0D4F92D, q3 = 0\<rparr> =
     \<lparr>sampleFreq = 0x3C75C28F, beta = 0x3DCCCCCD, q0 = 0x3E17F0A9, q1 = 0, q2 = 0xBF7CCE5F, q3 = 0\<rparr>"
  by code_simp

lemma tilt_update:
  "fst (MadgwickAHRSupdateIMU madgwick_ctor gyro_zero accel_x) =
     \<lparr>sampleFreq = 0x3C75C28F, beta = 0x3DCCCCCD, q0 = 0x3E17F0A9, q1 = 0, q2 = 0xBF7CCE5F, q3 = 0\<rparr>"
  by (simp add: update_steps tilt_rate tilt_integrate tilt_normalise)

text \<open>Gravity measured along the z axis, on a fresh filter.\<close>

lemma accel_z_nonzero: "\<not> accel_is_zero accel_z"
  by code_simp

lemma level_accel: "normalise_accel accel_z = \<lparr>coords3d.x = 0, coords3d.y = 0, coords3d.z = 0x3F7F910F\<rparr>"
  by code_simp

lemma level_gradient:
  "gradient madgwick_ctor \<lparr>coords3d.x = 0, coords3d.y = 0, coords3d.z = 0x3F7F910F\<rparr> = (0, 0, 0, 0)"
  by code_simp

lemma level_sumsq: "gradient_sumsq (0, 0, 0, 0) = 0"
  by code_simp

section \<open>Bit fields, powers of two and values\<close>

lemma exp_field_uint: "exp_field w = (uint w div 2 ^ 23) mod 2 ^ 8"
proof -
  have "(0xFF :: 32 word) = mask 8"
    by (simp add: mask_eq_exp_minus_1)
  then have "exp_field w = uint (take_bit 8 (drop_bit 23 w))"
    by (simp add: exp_field_def take_bit_eq_mask)
  also have "\<dots> = take_bit 8 (uint (drop_bit 23 w))"
    by (simp only: unsigned_take_bit_eq)
  also have "uint (drop_bit 23 w) = drop_bit 23 (uint w)"
    by (simp add: unsigned_drop_bit_eq bintr_uint)
  finally show ?thesis
    by (simp add: take_bit_eq_mod drop_bit_eq_div)
qed

lemma frac_field_uint: "frac_field w = uint w mod 2 ^ 23"
proof -
  have "(0x7FFFFF :: 32 word) = mask 23"
    by (simp add: mask_eq_exp_minus_1)
  then have "frac_field w = uint (take_bit 23 w)"
    by (simp add: frac_field_def take_bit_eq_mask)
  also have "\<dots> = take_bit 23 (uint w)"
    by (simp only: unsigned_take_bit_eq)
  finally show ?thesis
    by (simp add: take_bit_eq_mod)
qed

lemma sign_bit_uint: "sign_bit w \<longleftrightarrow> 2 ^ 31 \<le> uint w"
proof -
  have "sign_bit w \<longleftrightarrow> bit (uint w) 31"
    by (simp add: sign_bit_def bit_uint_iff)
  also have "\<dots> \<longleftrightarrow> odd (uint w div 2 ^ 31)"
    by (simp add: bit_iff_odd)
  finally have s: "sign_bit w \<longleftrightarrow> odd (uint w div 2 ^ 31)" .
  have b: "0 \<le> uint w" "uint w < 2 ^ 32"
    using uint_bounded [of w] by simp_all
  show ?thesis
  proof (cases "2 ^ 31 \<le> uint w")
    case True
    with b have "uint w div 2 ^ 31 = 1"
      by simp
    with True s show ?thesis by simp
  next
    case False
    with b have "uint w div 2 ^ 31 = 0"
      by simp
    with False s show ?thesis by simp
  qed
qed

lemma uint_pack:
  assumes "0 \<le> b" and "b < 2 ^ 31"
  shows "uint (pack sg b) = (if sg then 2 ^ 31 else 0) + b"
proof -
  have w: "uint (word_of_int b :: 32 word) = b"
    using assms by (simp add: uint_word_of_int take_bit_eq_mod)
  show ?thesis
  proof (cases sg)
    case True
    have "uint (0x80000000 + word_of_int b :: 32 word) = (uint (0x80000000 :: 32 word) + uint (word_of_int b :: 32 word)) mod 2 ^ 32"
      by (simp only: uint_word_ariths) simp
    with w assms True show ?thesis
      by (simp add: pack_def)
  next
    case False
    with w show ?thesis by (simp add: pack_def)
  qed
qed


lemma pow2_powr: "pow2 e = 2 powr (real_of_int e)"
proof (cases "0 \<le> e")
  case True
  then have "2 powr (real_of_int e) = 2 powr (real (nat e))"
    by simp
  also have "\<dots> = 2 ^ nat e"
    by (rule powr_realpow) simp
  finally show ?thesis
    using True by (simp add: pow2_def)
next
  case False
  then have "2 powr (real_of_int e) = 2 powr (- real (nat (- e)))"
    by simp
  also have "\<dots> = 1 / 2 powr (real (nat (- e)))"
    by (simp only: powr_minus_divide)
  also have "2 powr (real (nat (- e))) = 2 ^ nat (- e)"
    by (rule powr_realpow) simp
  finally show ?thesis
    using False by (simp add: pow2_def)
qed

lemma pow2_pos [simp]: "0 < pow2 e"
  by (simp add: pow2_powr)

lemma pow2_nonneg [simp]: "0 \<le> pow2 e"
  by (simp add: pow2_powr)

lemma pow2_add: "pow2 (a + b) = pow2 a * pow2 b"
  by (simp add: pow2_powr powr_add)

lemma pow2_diff: "pow2 (a - b) = pow2 a / pow2 b"
  by (simp add: pow2_powr powr_diff)

lemma pow2_0 [simp]: "pow2 0 = 1"
  by (simp add: pow2_def)

lemma pow2_nat: "pow2 (int n) = 2 ^ n"
  by (simp add: pow2_def)

lemma pow2_numeral [simp]: "pow2 (numeral k) = 2 ^ numeral k"
  by (simp add: pow2_def)

lemma pow2_neg_numeral [simp]: "pow2 (- numeral k) = 1 / 2 ^ numeral k"
  by (simp add: pow2_def)

lemma pow2_mono: "a \<le> b \<Longrightarrow> pow2 a \<le> pow2 b"
  by (simp add: pow2_powr)

lemma pow2_less: "a < b \<Longrightarrow> pow2 a < pow2 b"
  by (simp add: pow2_powr)

lemma valof_Fin: "decode w = Fin sg m e \<Longrightarrow> valof w = real_of_int (signed sg m) * pow2 e"
  by (simp add: valof_def pow2_def)

lemma decode_pack:
  assumes "0 \<le> b" and "b < 0x7F800000"
  shows "decode (pack sg b) =
           (if b < 2 ^ 23 then Fin sg b (- 149)
            else Fin sg (2 ^ 23 + b mod 2 ^ 23) (b div 2 ^ 23 - 150))"
proof -
  define K :: int where "K = 2 ^ 23"
  have K: "0 < K"
    by (simp add: K_def)
  have u: "uint (pack sg b) = (if sg then 256 * K else 0) + b"
    using uint_pack [of b sg] assms by (simp add: K_def)
  have d: "b div K < 255"
    using assms by (simp add: K_def)
  have d0: "0 \<le> b div K"
    using assms by (simp add: K_def)
  have "uint (pack sg b) div K = (if sg then 256 else 0) + b div K"
    unfolding u using K by simp
  then have "(uint (pack sg b) div K) mod 2 ^ 8 = b div K"
    using d d0 by simp
  then have e: "exp_field (pack sg b) = b div K"
    by (simp add: exp_field_uint K_def)
  have "uint (pack sg b) mod K = b mod K"
    unfolding u by simp
  then have f: "frac_field (pack sg b) = b mod K"
    by (simp add: frac_field_uint K_def)
  have s: "sign_bit (pack sg b) = sg"
    using assms by (simp add: sign_bit_uint u K_def)
  have z: "b div K = 0 \<longleftrightarrow> b < K"
    using assms K by (auto simp: zdiv_eq_0_iff)
  show ?thesis
    using d z assms by (simp add: decode_def e f s) (simp add: K_def)
qed

section \<open>Rounding to nearest, ties to even\<close>

lemma rne_shift_error:
  "\<bar>real_of_int (rne_shift m k) - real_of_int m / 2 ^ k\<bar> \<le> 1 / 2"
proof -
  define d :: int where "d = 2 ^ k"
  define q where "q = m div d"
  define r where "r = m mod d"
  have d: "0 < d" by (simp add: d_def)
  have m: "m = q * d + r" by (simp add: q_def r_def)
  have r: "0 \<le> r" "r < d" using d by (simp_all add: r_def)
  have "real_of_int m / real_of_int d = real_of_int q + real_of_int r / real_of_int d"
    using d by (simp add: m field_simps)
  then have v: "real_of_int m / 2 ^ k = real_of_int q + real_of_int r / real_of_int d"
    by (simp add: d_def)
  have rd: "0 \<le> real_of_int r / real_of_int d" "real_of_int r / real_of_int d < 1"
    using r d by simp_all
  have lt: "2 * r < d \<Longrightarrow> real_of_int r / real_of_int d < 1 / 2"
    using d by (simp add: field_simps)
  have gt: "d < 2 * r \<Longrightarrow> 1 / 2 < real_of_int r / real_of_int d"
    using d by (simp add: field_simps)
  have eq: "2 * r = d \<Longrightarrow> real_of_int r / real_of_int d = 1 / 2"
    using d by (simp add: field_simps)
  have s: "rne_shift m k = (if 2 * r < d then q else if d < 2 * r then q + 1 else if even q then q else q + 1)"
    by (simp add: rne_shift_def Let_def q_def r_def d_def)
  consider "2 * r < d" | "d < 2 * r" | "2 * r = d" by linarith
  then show ?thesis
  proof cases
    case 1
    with lt rd show ?thesis unfolding v s by simp
  next
    case 2
    with gt rd show ?thesis unfolding v s by simp
  next
    case 3
    then have n: "\<not> 2 * r < d" "\<not> d < 2 * r"
      by simp_all
    from 3 have h: "real_of_int r / real_of_int d = 1 / 2"
      by (rule eq)
    show ?thesis
      unfolding v s using n by (cases "even q") (simp_all add: h)
  qed
qed

lemma div_pow2_lower: "a * 2 ^ k \<le> m \<Longrightarrow> a \<le> m div 2 ^ k" for a m :: int
proof -
  assume "a * 2 ^ k \<le> m"
  then have "(a * 2 ^ k) div 2 ^ k \<le> m div 2 ^ k"
    by (rule zdiv_mono1) simp
  then show ?thesis by simp
qed

lemma div_pow2_upper: "m < c * 2 ^ k \<Longrightarrow> m div 2 ^ k < c" for c m :: int
proof (rule ccontr)
  assume a: "m < c * 2 ^ k" and "\<not> m div 2 ^ k < c"
  then have "c \<le> m div 2 ^ k" by simp
  then have "c * 2 ^ k \<le> (m div 2 ^ k) * 2 ^ k"
    by (simp add: mult_right_mono)
  also have "\<dots> \<le> m"
  proof -
    have "m div 2 ^ k * 2 ^ k + m mod 2 ^ k = m"
      by (rule div_mult_mod_eq)
    moreover have "0 \<le> m mod 2 ^ k"
      by simp
    ultimately show ?thesis
      by linarith
  qed
  finally show False using a by simp
qed

lemma rne_shift_lower: "a * 2 ^ k \<le> m \<Longrightarrow> a \<le> rne_shift m k"
  using div_pow2_lower [of a k m] by (simp add: rne_shift_def Let_def)

lemma rne_shift_upper: "m \<le> c * 2 ^ k \<Longrightarrow> rne_shift m k \<le> c"
proof -
  assume a: "m \<le> c * 2 ^ k"
  show ?thesis
  proof (cases "m = c * 2 ^ k")
    case True
    then show ?thesis by (simp add: rne_shift_def Let_def)
  next
    case False
    with a have "m < c * 2 ^ k" by simp
    then have "m div 2 ^ k < c"
      by (rule div_pow2_upper)
    then show ?thesis
      by (simp add: rne_shift_def Let_def)
  qed
qed

lemma fround_alt:
  "fround sg m e =
     (if m = 0 then pack sg 0
      else if inf_bits \<le> round_bits m e then pack sg inf_bits else pack sg (round_bits m e))"
  by (simp add: fround_def round_bits_def round_sig_def round_exp_def Let_def)

lemma round_exp_ge: "- 149 \<le> round_exp m e"
  by (simp add: round_exp_def)

lemma pow_nat_add: "0 \<le> a \<Longrightarrow> 0 \<le> b \<Longrightarrow> (2::int) ^ nat a * 2 ^ nat b = 2 ^ nat (a + b)"
  by (simp add: nat_add_distrib power_add)

lemma pow_nat_mono: "a \<le> b \<Longrightarrow> (2::int) ^ nat a \<le> 2 ^ nat b"
  by (simp add: power_increasing)

lemma round_sig_bounds:
  assumes "0 < m"
  shows "0 \<le> round_sig m e" and "round_sig m e \<le> 2 ^ 24"
    and "- 149 < round_exp m e \<Longrightarrow> 2 ^ 23 \<le> round_sig m e"
proof -
  define n where "n = bitlen m"
  define q where "q = round_exp m e"
  have q: "q = max (e + n - 24) (- 149)"
    by (simp add: q_def n_def round_exp_def)
  have n1: "1 \<le> n"
    using assms bitlen_bounds [of m] bitlen_nonneg [of m] bitlen_eq_zero_iff [of m]
    by (simp add: n_def)
  have lo: "2 ^ nat (n - 1) \<le> m" and hi: "m < 2 ^ nat n"
    using assms bitlen_bounds [of m] by (simp_all add: n_def)
  show "0 \<le> round_sig m e"
  proof (cases "q \<le> e")
    case True
    then show ?thesis using assms by (simp add: round_sig_def q_def)
  next
    case False
    have "0 * 2 ^ nat (q - e) \<le> m" using assms by simp
    then have "0 \<le> rne_shift m (nat (q - e))" by (rule rne_shift_lower)
    with False show ?thesis by (simp add: round_sig_def q_def)
  qed
  show "round_sig m e \<le> 2 ^ 24"
  proof (cases "q \<le> e")
    case True
    have "m * 2 ^ nat (e - q) \<le> 2 ^ nat n * 2 ^ nat (e - q)"
      using hi by (simp add: mult_right_mono)
    also have "\<dots> = 2 ^ nat (n + (e - q))"
      using n1 True by (simp add: pow_nat_add)
    also have "\<dots> \<le> 2 ^ nat 24"
      by (rule pow_nat_mono) (use q in simp)
    finally show ?thesis using True by (simp add: round_sig_def q_def)
  next
    case False
    have "m \<le> 2 ^ nat n"
      using hi by simp
    also have "\<dots> \<le> 2 ^ nat (24 + (q - e))"
      by (rule pow_nat_mono) (use q in simp)
    also have "\<dots> = 2 ^ 24 * 2 ^ nat (q - e)"
      using False by (simp add: nat_add_distrib power_add)
    finally have "rne_shift m (nat (q - e)) \<le> 2 ^ 24"
      by (rule rne_shift_upper)
    with False show ?thesis by (simp add: round_sig_def q_def)
  qed
  show "2 ^ 23 \<le> round_sig m e" if "- 149 < round_exp m e"
  proof -
    from that have qe: "q = e + n - 24"
      using q by (simp add: q_def)
    show ?thesis
    proof (cases "q \<le> e")
      case True
      have "(2::int) ^ 23 = 2 ^ nat ((n - 1) + (e - q))"
        using qe by simp
      also have "\<dots> = 2 ^ nat (n - 1) * 2 ^ nat (e - q)"
        using n1 True by (simp add: pow_nat_add)
      also have "\<dots> \<le> m * 2 ^ nat (e - q)"
        using lo by (simp add: mult_right_mono)
      finally show ?thesis using True by (simp add: round_sig_def q_def)
    next
      case False
      have "(2::int) ^ 23 * 2 ^ nat (q - e) = 2 ^ nat 23 * 2 ^ nat (q - e)"
        by simp
      also have "\<dots> = 2 ^ nat (23 + (q - e))"
        using False by (subst pow_nat_add) simp_all
      also have "23 + (q - e) = n - 1"
        using qe by simp
      also note lo
      finally have "2 ^ 23 \<le> rne_shift m (nat (q - e))"
        by (rule rne_shift_lower)
      with False show ?thesis by (simp add: round_sig_def q_def)
    qed
  qed
qed

lemma round_sig_error:
  "\<bar>real_of_int (round_sig m e) * pow2 (round_exp m e) - real_of_int m * pow2 e\<bar>
     \<le> pow2 (round_exp m e) / 2"
proof -
  define q where "q = round_exp m e"
  have "\<bar>real_of_int (round_sig m e) * pow2 q - real_of_int m * pow2 e\<bar> \<le> pow2 q / 2"
  proof (cases "q \<le> e")
    case True
    have "pow2 e = pow2 ((e - q) + q)" by simp
    also have "\<dots> = pow2 (e - q) * pow2 q" by (rule pow2_add)
    also have "pow2 (e - q) = 2 ^ nat (e - q)" using True by (simp add: pow2_def)
    finally have pe: "pow2 e = 2 ^ nat (e - q) * pow2 q" .
    have rs: "round_sig m e = m * 2 ^ nat (e - q)"
      using True by (simp add: round_sig_def q_def)
    have "real_of_int (round_sig m e) * pow2 q = real_of_int m * (2 ^ nat (e - q) * pow2 q)"
      by (simp add: rs)
    also have "\<dots> = real_of_int m * pow2 e"
      by (simp only: pe)
    finally show ?thesis by simp
  next
    case False
    define k where "k = nat (q - e)"
    have rs: "round_sig m e = rne_shift m k"
      using False by (simp add: round_sig_def q_def k_def)
    have "pow2 q = pow2 ((q - e) + e)" by simp
    also have "\<dots> = pow2 (q - e) * pow2 e" by (rule pow2_add)
    also have "pow2 (q - e) = 2 ^ k" using False by (simp add: pow2_def k_def)
    finally have pq: "pow2 q = 2 ^ k * pow2 e" .
    have "\<bar>real_of_int (rne_shift m k) - real_of_int m / 2 ^ k\<bar> \<le> 1 / 2"
      by (rule rne_shift_error)
    then have "\<bar>real_of_int (rne_shift m k) - real_of_int m / 2 ^ k\<bar> * pow2 q \<le> 1 / 2 * pow2 q"
      by (rule mult_right_mono) simp
    moreover have "\<bar>real_of_int (rne_shift m k) - real_of_int m / 2 ^ k\<bar> * pow2 q
        = \<bar>real_of_int (rne_shift m k) * pow2 q - real_of_int m * pow2 e\<bar>"
    proof -
      have "\<bar>real_of_int (rne_shift m k) - real_of_int m / 2 ^ k\<bar> * pow2 q
              = \<bar>(real_of_int (rne_shift m k) - real_of_int m / 2 ^ k) * pow2 q\<bar>"
        by (simp add: abs_mult)
      also have "(real_of_int (rne_shift m k) - real_of_int m / 2 ^ k) * pow2 q
              = real_of_int (rne_shift m k) * pow2 q - real_of_int m * pow2 e"
        by (simp add: pq field_simps)
      finally show ?thesis .
    qed
    ultimately show ?thesis
      by (simp add: rs)
  qed
  then show ?thesis
    by (simp add: q_def)
qed

section \<open>The value of a rounded result\<close>

lemma is_finite_Fin: "decode w = Fin sg m e \<Longrightarrow> is_finite w"
  by (simp add: is_finite_def)

lemma real_signed: "real_of_int (signed sg m) = (if sg then - real_of_int m else real_of_int m)"
  by (simp add: signed_def)

lemma pack_value:
  assumes q: "- 149 \<le> q" and m0: "0 \<le> m" and m1: "m \<le> 2 ^ 24"
    and norm: "- 149 < q \<Longrightarrow> 2 ^ 23 \<le> m"
    and fin: "(q + 149) * 2 ^ 23 + m < inf_bits"
  shows "is_finite (pack sg ((q + 149) * 2 ^ 23 + m)) \<and>
         valof (pack sg ((q + 149) * 2 ^ 23 + m)) = real_of_int (signed sg m) * pow2 q"
proof -
  define K :: int where "K = 2 ^ 23"
  define b where "b = (q + 149) * K + m"
  have K: "0 < K" by (simp add: K_def)
  have b0: "0 \<le> b"
    using q m0 K by (simp add: b_def)
  have bi: "b < 0x7F800000"
    using fin by (simp add: b_def K_def inf_bits_def)
  note dp = decode_pack [OF b0 bi, of sg, folded K_def]
  have "m < K \<or> (K \<le> m \<and> m < 2 * K) \<or> m = 2 * K"
    using m1 by (simp add: K_def) arith
  then consider "m < K" | "K \<le> m" "m < 2 * K" | "m = 2 * K"
    by blast
  then have "\<exists>m' q'. decode (pack sg b) = Fin sg m' q' \<and> real_of_int m' * pow2 q' = real_of_int m * pow2 q"
  proof cases
    case 1
    with norm have "q = - 149"
      using q by (cases "- 149 < q") (auto simp: K_def)
    with 1 have "b = m" "b < K"
      by (simp_all add: b_def)
    with dp \<open>q = - 149\<close> show ?thesis
      by simp
  next
    case 2
    have bb: "b = (q + 150) * K + (m - K)"
      by (simp add: b_def algebra_simps)
    have d: "b div K = q + 150"
      unfolding bb using 2 K by simp
    have "(m - K) mod K = m - K"
      using 2 by (intro mod_pos_pos_trivial) simp_all
    then have r: "b mod K = m - K"
      unfolding bb by (simp only: mod_mult_self3)
    have "\<not> b < K"
      using 2 q K unfolding b_def by (smt (verit) mult_nonneg_nonneg)
    with dp d r show ?thesis
      by simp
  next
    case 3
    have bb: "b = (q + 151) * K"
      by (simp add: b_def 3 algebra_simps)
    have d: "b div K = q + 151"
      unfolding bb using K by simp
    have r: "b mod K = 0"
      unfolding bb by simp
    have "\<not> b < K"
      using 3 q K unfolding b_def by (smt (verit) mult_nonneg_nonneg)
    with dp d r have "decode (pack sg b) = Fin sg K (q + 1)"
      by simp
    moreover have "pow2 (1::int) = 2"
      by (simp add: pow2_def)
    then have "real_of_int K * pow2 (q + 1) = real_of_int m * pow2 q"
      by (simp add: 3 pow2_add)
    ultimately show ?thesis
      by blast
  qed
  then obtain m' q' where d: "decode (pack sg b) = Fin sg m' q'"
    and v: "real_of_int m' * pow2 q' = real_of_int m * pow2 q"
    by blast
  have "valof (pack sg b) = real_of_int (signed sg m) * pow2 q"
    using v by (simp add: valof_Fin [OF d] real_signed)
  with is_finite_Fin [OF d] show ?thesis
    by (simp add: b_def K_def)
qed

lemma decode_inf: "decode (pack sg inf_bits) = Inf sg"
  by (cases sg) (simp_all add: pack_def inf_bits_def, code_simp+)

lemma fround_value:
  assumes "0 < m" and "round_bits m e < inf_bits"
  shows "is_finite (fround sg m e)"
    and "valof (fround sg m e) = real_of_int (signed sg (round_sig m e)) * pow2 (round_exp m e)"
proof -
  have f: "fround sg m e = pack sg ((round_exp m e + 149) * 2 ^ 23 + round_sig m e)"
    using assms by (simp add: fround_alt round_bits_def)
  have p: "is_finite (pack sg ((round_exp m e + 149) * 2 ^ 23 + round_sig m e)) \<and>
      valof (pack sg ((round_exp m e + 149) * 2 ^ 23 + round_sig m e)) =
        real_of_int (signed sg (round_sig m e)) * pow2 (round_exp m e)"
    using round_exp_ge round_sig_bounds [OF assms(1)] assms(2)
    by (intro pack_value) (simp_all add: round_bits_def)
  show "is_finite (fround sg m e)"
    and "valof (fround sg m e) = real_of_int (signed sg (round_sig m e)) * pow2 (round_exp m e)"
    using p by (simp_all add: f)
qed

lemma fround_overflow:
  assumes "0 < m" and "is_finite (fround sg m e)"
  shows "round_bits m e < inf_bits"
proof (rule ccontr)
  assume "\<not> round_bits m e < inf_bits"
  then have "fround sg m e = pack sg inf_bits"
    using assms(1) by (simp add: fround_alt)
  then show False
    using assms(2) by (simp add: is_finite_def decode_inf)
qed

lemma pow2_1 [simp]: "pow2 1 = 2"
  by (simp add: pow2_def)

lemma pow2_less_cancel: "pow2 a < pow2 b \<Longrightarrow> a < b"
  by (simp add: pow2_powr)

lemma pow2_le_cancel: "pow2 a \<le> pow2 b \<Longrightarrow> a \<le> b"
  by (simp add: pow2_powr)

lemma bitlen_lower_real:
  assumes "0 < m"
  shows "pow2 (bitlen m - 1) \<le> real_of_int m"
proof -
  have "1 \<le> bitlen m"
    using assms bitlen_nonneg [of m] bitlen_eq_zero_iff [of m] by simp
  then have "pow2 (bitlen m - 1) = 2 ^ nat (bitlen m - 1)"
    by (simp add: pow2_def)
  also have "\<dots> = real_of_int (2 ^ nat (bitlen m - 1))"
    by simp
  also have "\<dots> \<le> real_of_int m"
    using bitlen_bounds [OF assms] by (simp only: of_int_le_iff)
  finally show ?thesis .
qed

text \<open>Half a unit in the last place is at most the relative error \<open>2\<^sup>-\<^sup>2\<^sup>4\<close> of the value plus
  the absolute error \<open>2\<^sup>-\<^sup>1\<^sup>5\<^sup>0\<close>.\<close>

lemma half_ulp_bound:
  assumes "0 < m"
  shows "pow2 (round_exp m e) / 2 \<le> real_of_int m * pow2 e / 2 ^ 24 + 1 / 2 ^ 150"
proof (cases "e + bitlen m - 24 \<le> - 149")
  case True
  then have "round_exp m e = - 149"
    by (simp add: round_exp_def)
  then have "pow2 (round_exp m e) / 2 = 1 / 2 ^ 150"
    by simp
  moreover have "0 \<le> real_of_int m * pow2 e / 2 ^ 24"
    using assms by simp
  ultimately show ?thesis
    by linarith
next
  case False
  then have q: "round_exp m e = e + bitlen m - 24"
    by (simp add: round_exp_def)
  have "pow2 (round_exp m e) / 2 = pow2 ((bitlen m - 1) + e + (- 24))"
    unfolding q by (simp add: pow2_add pow2_diff)
  also have "\<dots> = pow2 (bitlen m - 1) * pow2 e / 2 ^ 24"
    by (simp only: pow2_add) simp
  also have "\<dots> \<le> real_of_int m * pow2 e / 2 ^ 24"
    using bitlen_lower_real [OF assms] by (simp add: divide_right_mono mult_right_mono)
  finally have "pow2 (round_exp m e) / 2 \<le> real_of_int m * pow2 e / 2 ^ 24" .
  moreover have "(0::real) \<le> 1 / 2 ^ 150"
    by simp
  ultimately show ?thesis
    by linarith
qed

lemma round_bits_no_overflow:
  assumes "0 < m" and "real_of_int m * pow2 e < 2 ^ 127"
  shows "round_bits m e < inf_bits"
proof -
  have "round_exp m e \<le> 103"
  proof (cases "e + bitlen m - 24 \<le> - 149")
    case True
    then show ?thesis by (simp add: round_exp_def)
  next
    case False
    then have q: "round_exp m e = e + bitlen m - 24"
      by (simp add: round_exp_def)
    have "pow2 ((bitlen m - 1) + e) = pow2 (bitlen m - 1) * pow2 e"
      by (rule pow2_add)
    also have "\<dots> \<le> real_of_int m * pow2 e"
      using bitlen_lower_real [OF assms(1)] by (simp add: mult_right_mono)
    also have "\<dots> < pow2 127"
      using assms(2) by simp
    finally have "(bitlen m - 1) + e < 127"
      by (rule pow2_less_cancel)
    with q show ?thesis by simp
  qed
  then have "(round_exp m e + 149) * 2 ^ 23 \<le> 252 * 2 ^ 23"
    by simp
  with round_sig_bounds(2) [OF assms(1), of e] show ?thesis
    by (simp add: round_bits_def inf_bits_def)
qed

lemma fround_error:
  assumes "0 < m" and "round_bits m e < inf_bits"
  shows "\<bar>valof (fround sg m e) - real_of_int (signed sg m) * pow2 e\<bar>
           \<le> real_of_int m * pow2 e / 2 ^ 24 + 1 / 2 ^ 150"
proof -
  have "\<bar>valof (fround sg m e) - real_of_int (signed sg m) * pow2 e\<bar>
          = \<bar>real_of_int (round_sig m e) * pow2 (round_exp m e) - real_of_int m * pow2 e\<bar>"
    by (cases sg) (simp_all add: fround_value(2) [OF assms] real_signed)
  also have "\<dots> \<le> pow2 (round_exp m e) / 2"
    by (rule round_sig_error)
  also have "\<dots> \<le> real_of_int m * pow2 e / 2 ^ 24 + 1 / 2 ^ 150"
    by (rule half_ulp_bound [OF assms(1)])
  finally show ?thesis .
qed

lemma valof_pack_zero: "valof (pack sg 0) = 0" "is_finite (pack sg 0)"
proof -
  have "decode (pack sg 0) = Fin sg 0 (- 149)"
    using decode_pack [of 0 sg] by simp
  then show "valof (pack sg 0) = 0" "is_finite (pack sg 0)"
    by (simp_all add: valof_Fin is_finite_Fin real_signed)
qed

text \<open>Rounding a non-negative significand: the three facts together.\<close>

lemma fround_spec:
  assumes "0 \<le> m"
  shows "real_of_int m * pow2 e < 2 ^ 127 \<Longrightarrow> is_finite (fround sg m e)"
    and "is_finite (fround sg m e) \<Longrightarrow>
           \<bar>valof (fround sg m e) - real_of_int (signed sg m) * pow2 e\<bar>
             \<le> real_of_int m * pow2 e / 2 ^ 24 + 1 / 2 ^ 150"
proof -
  show "is_finite (fround sg m e)" if "real_of_int m * pow2 e < 2 ^ 127"
  proof (cases "m = 0")
    case True
    then show ?thesis by (simp add: fround_alt valof_pack_zero)
  next
    case False
    with assms have "0 < m" by simp
    then show ?thesis
      using that by (intro fround_value(1) round_bits_no_overflow)
  qed
  show "\<bar>valof (fround sg m e) - real_of_int (signed sg m) * pow2 e\<bar>
          \<le> real_of_int m * pow2 e / 2 ^ 24 + 1 / 2 ^ 150" if "is_finite (fround sg m e)"
  proof (cases "m = 0")
    case True
    then show ?thesis by (simp add: fround_alt valof_pack_zero real_signed)
  next
    case False
    with assms have "0 < m" by simp
    then show ?thesis
      using that by (intro fround_error fround_overflow)
  qed
qed

section \<open>Multiplication, addition and subtraction\<close>

lemma frac_field_nonneg: "0 \<le> frac_field w"
  by (simp add: frac_field_def)

lemma decode_Fin_nonneg: "decode w = Fin sg m e \<Longrightarrow> 0 \<le> m"
  using frac_field_nonneg [of w] by (auto simp: decode_def split: if_splits)

lemma is_finite_cases:
  assumes "is_finite w"
  obtains sg m e where "decode w = Fin sg m e" and "0 \<le> m"
  using assms decode_Fin_nonneg [of w] by (auto simp: is_finite_def split: fclass.splits)

lemma not_finite_qNaN: "\<not> is_finite qNaN"
  by code_simp

lemma not_finite_inf: "\<not> is_finite (pack sg inf_bits)"
  by (simp add: is_finite_def decode_inf)

lemma signed_mult: "signed (sa \<noteq> sb) (ma * mb) = signed sa ma * signed sb mb"
  by (simp add: signed_def)

lemma fmul_finiteD:
  assumes "is_finite (fmul a b)"
  shows "is_finite a" and "is_finite b"
proof -
  have "is_finite a \<and> is_finite b"
  proof (cases "decode a")
    case NaN
    with assms show ?thesis
      by (simp add: fmul_def not_finite_qNaN)
  next
    case (Inf sa)
    with assms show ?thesis
      by (cases "decode b") (simp_all add: fmul_def not_finite_qNaN not_finite_inf split: if_splits)
  next
    case (Fin sa ma ea)
    with assms show ?thesis
      by (cases "decode b")
         (simp_all add: fmul_def not_finite_qNaN not_finite_inf is_finite_Fin split: if_splits)
  qed
  then show "is_finite a" and "is_finite b"
    by simp_all
qed

lemma fmul_spec:
  assumes "is_finite a" and "is_finite b"
  shows "\<bar>valof a * valof b\<bar> < 2 ^ 127 \<Longrightarrow> is_finite (fmul a b)"
    and "is_finite (fmul a b) \<Longrightarrow>
           \<bar>valof (fmul a b) - valof a * valof b\<bar> \<le> \<bar>valof a * valof b\<bar> / 2 ^ 24 + 1 / 2 ^ 150"
proof -
  from assms(1) obtain sa ma ea where a: "decode a = Fin sa ma ea" and ma: "0 \<le> ma"
    by (rule is_finite_cases)
  from assms(2) obtain sb mb eb where b: "decode b = Fin sb mb eb" and mb: "0 \<le> mb"
    by (rule is_finite_cases)
  have f: "fmul a b = fround (sa \<noteq> sb) (ma * mb) (ea + eb)"
    by (simp add: fmul_def a b)
  have m: "0 \<le> ma * mb"
    using ma mb by simp
  have v: "valof a * valof b = real_of_int (signed (sa \<noteq> sb) (ma * mb)) * pow2 (ea + eb)"
    by (cases sa; cases sb) (simp_all add: valof_Fin [OF a] valof_Fin [OF b] real_signed pow2_add)
  have av: "\<bar>valof a * valof b\<bar> = real_of_int (ma * mb) * pow2 (ea + eb)"
    using ma mb unfolding v by (simp add: real_signed abs_mult)
  show "is_finite (fmul a b)" if "\<bar>valof a * valof b\<bar> < 2 ^ 127"
    unfolding f using that fround_spec(1) [OF m] by (simp only: av)
  show "\<bar>valof (fmul a b) - valof a * valof b\<bar> \<le> \<bar>valof a * valof b\<bar> / 2 ^ 24 + 1 / 2 ^ 150"
    if "is_finite (fmul a b)"
    using that fround_spec(2) [OF m, of "sa \<noteq> sb" "ea + eb"] unfolding f v [symmetric] av
    by blast
qed

lemma decode_fneg:
  "decode (fneg a) =
     (case decode a of NaN \<Rightarrow> NaN | Inf sg \<Rightarrow> Inf (\<not> sg) | Fin sg m e \<Rightarrow> Fin (\<not> sg) m e)"
proof -
  have e: "exp_field (fneg a) = exp_field a"
    by (simp add: exp_field_def fneg_def bit.conj_xor_distrib2 drop_bit_xor) 
  have f: "frac_field (fneg a) = frac_field a"
    by (simp add: frac_field_def fneg_def bit.conj_xor_distrib2)
  have s: "sign_bit (fneg a) = (\<not> sign_bit a)"
    by (simp add: sign_bit_def fneg_def bit_xor_iff) 
  show ?thesis
    by (simp add: decode_def e f s)
qed


lemma is_finite_fneg [simp]: "is_finite (fneg a) = is_finite a"
  by (simp add: is_finite_def decode_fneg split: fclass.splits)

lemma valof_fneg [simp]: "valof (fneg a) = - valof a"
  by (simp add: valof_def decode_fneg signed_def split: fclass.splits)

lemma fadd_finiteD:
  assumes "is_finite (fadd a b)"
  shows "is_finite a" and "is_finite b"
proof -
  have "is_finite a \<and> is_finite b"
  proof (cases "decode a")
    case NaN
    with assms show ?thesis
      by (simp add: fadd_def not_finite_qNaN)
  next
    case (Inf sa)
    with assms show ?thesis
      by (cases "decode b") (simp_all add: fadd_def not_finite_qNaN not_finite_inf split: if_splits)
  next
    case (Fin sa ma ea)
    with assms show ?thesis
      by (cases "decode b")
         (simp_all add: fadd_def not_finite_qNaN not_finite_inf is_finite_Fin split: if_splits)
  qed
  then show "is_finite a" and "is_finite b"
    by simp_all
qed

lemma fadd_spec:
  assumes "is_finite a" and "is_finite b"
  shows "\<bar>valof a + valof b\<bar> < 2 ^ 127 \<Longrightarrow> is_finite (fadd a b)"
    and "is_finite (fadd a b) \<Longrightarrow>
           \<bar>valof (fadd a b) - (valof a + valof b)\<bar> \<le> \<bar>valof a + valof b\<bar> / 2 ^ 24 + 1 / 2 ^ 150"
proof -
  from assms(1) obtain sa ma ea where a: "decode a = Fin sa ma ea" and ma: "0 \<le> ma"
    by (rule is_finite_cases)
  from assms(2) obtain sb mb eb where b: "decode b = Fin sb mb eb" and mb: "0 \<le> mb"
    by (rule is_finite_cases)
  define g where "g = min ea eb"
  define t where "t = signed sa ma * 2 ^ nat (ea - g) + signed sb mb * 2 ^ nat (eb - g)"
  have f: "fadd a b = (if t = 0 then pack (sa \<and> sb) 0 else fround (t < 0) \<bar>t\<bar> g)"
    by (simp add: fadd_def a b Let_def g_def t_def)
  have pa: "pow2 ea = 2 ^ nat (ea - g) * pow2 g"
  proof -
    have "pow2 ea = pow2 ((ea - g) + g)" by simp
    also have "\<dots> = pow2 (ea - g) * pow2 g" by (rule pow2_add)
    also have "pow2 (ea - g) = 2 ^ nat (ea - g)" by (simp add: pow2_def g_def)
    finally show ?thesis .
  qed
  have pb: "pow2 eb = 2 ^ nat (eb - g) * pow2 g"
  proof -
    have "pow2 eb = pow2 ((eb - g) + g)" by simp
    also have "\<dots> = pow2 (eb - g) * pow2 g" by (rule pow2_add)
    also have "pow2 (eb - g) = 2 ^ nat (eb - g)" by (simp add: pow2_def g_def)
    finally show ?thesis .
  qed
  have v: "valof a + valof b = real_of_int t * pow2 g"
    by (simp add: valof_Fin [OF a] valof_Fin [OF b] t_def pa pb algebra_simps)
  have sv: "real_of_int (signed (t < 0) \<bar>t\<bar>) = real_of_int t"
    by (simp add: signed_def)
  have av: "\<bar>valof a + valof b\<bar> = real_of_int \<bar>t\<bar> * pow2 g"
    unfolding v by (simp add: abs_mult)
  have m: "0 \<le> \<bar>t\<bar>"
    by simp
  show "is_finite (fadd a b)" if "\<bar>valof a + valof b\<bar> < 2 ^ 127"
  proof (cases "t = 0")
    case True
    then show ?thesis by (simp add: f valof_pack_zero)
  next
    case False
    then show ?thesis
      using that fround_spec(1) [OF m, of g "t < 0"] unfolding av by (simp add: f)
  qed
  show "\<bar>valof (fadd a b) - (valof a + valof b)\<bar> \<le> \<bar>valof a + valof b\<bar> / 2 ^ 24 + 1 / 2 ^ 150"
    if "is_finite (fadd a b)"
  proof (cases "t = 0")
    case True
    then show ?thesis by (simp add: f v valof_pack_zero)
  next
    case False
    then have "is_finite (fround (t < 0) \<bar>t\<bar> g)"
      using that by (simp add: f)
    from fround_spec(2) [OF m this] False show ?thesis
      unfolding av v by (simp add: f sv)
  qed
qed

lemma fsub_finiteD:
  assumes "is_finite (fsub a b)"
  shows "is_finite a" and "is_finite b"
  using fadd_finiteD [of a "fneg b"] assms by (simp_all add: fsub_def)

lemma fsub_spec:
  assumes "is_finite a" and "is_finite b"
  shows "\<bar>valof a - valof b\<bar> < 2 ^ 127 \<Longrightarrow> is_finite (fsub a b)"
    and "is_finite (fsub a b) \<Longrightarrow>
           \<bar>valof (fsub a b) - (valof a - valof b)\<bar> \<le> \<bar>valof a - valof b\<bar> / 2 ^ 24 + 1 / 2 ^ 150"
  using fadd_spec [of a "fneg b"] assms by (simp_all add: fsub_def)

section \<open>The first estimate of the inverse square root\<close>

lemma decode_normal_pos:
  assumes "is_normal_pos a"
  shows "decode a = Fin False (2 ^ 23 + uint a mod 2 ^ 23) (uint a div 2 ^ 23 - 150)"
proof -
  have b: "0 \<le> uint a" "uint a < 0x7F800000" "\<not> uint a < 2 ^ 23"
    using assms by (simp_all add: is_normal_pos_def)
  have "decode (pack False (uint a)) = Fin False (2 ^ 23 + uint a mod 2 ^ 23) (uint a div 2 ^ 23 - 150)"
    using decode_pack [OF b(1,2), of False] b(3) by simp
  then show ?thesis
    by (simp add: pack_def)
qed

lemma sign_clear_shift:
  fixes a :: "32 word"
  assumes "uint a < 2 ^ 31"
  shows "uint (signed_drop_bit 1 a) = uint a div 2"
proof -
  have nb: "\<not> bit a 31"
    using assms sign_bit_uint [of a] by (simp add: sign_bit_def)
  have "signed_drop_bit 1 a = drop_bit 1 a"
  proof (rule bit_word_eqI)
    fix n assume "n < LENGTH(32)"
    then show "bit (signed_drop_bit 1 a) n \<longleftrightarrow> bit (drop_bit 1 a) n"
      using nb by (auto simp: bit_signed_drop_bit_iff bit_drop_bit_eq dest: bit_imp_le_length)
  qed
  then have "uint (signed_drop_bit 1 a) = uint (drop_bit 1 a)"
    by simp
  also have "\<dots> = drop_bit 1 (uint a)"
    by (simp add: unsigned_drop_bit_eq bintr_uint)
  finally show ?thesis
    by (simp add: drop_bit_eq_div)
qed

lemma uint_magic_minus:
  assumes "is_normal_pos a"
  shows "uint (0x5f3759df - signed_drop_bit 1 a) = 0x5f3759df - uint a div 2"
proof -
  have a: "uint a < 2 ^ 31" "uint a < 255 * 2 ^ 23"
    using assms by (simp_all add: is_normal_pos_def)
  have s: "uint (signed_drop_bit 1 a) = uint a div 2"
    using a(1) by (rule sign_clear_shift)
  have "uint (signed_drop_bit 1 a) \<le> uint (0x5f3759df :: 32 word)"
    unfolding s using a(2) by simp
  then have "uint (0x5f3759df - signed_drop_bit 1 a) = uint (0x5f3759df :: 32 word) - uint (signed_drop_bit 1 a)"
    by (simp only: uint_sub_lem)
  then show ?thesis
    unfolding s by simp
qed

lemma amgm_square:
  fixes u w :: real
  assumes "0 \<le> u" and "0 \<le> w"
  shows "u\<^sup>2 * w \<le> ((2 * u + w) / 3) ^ 3"
proof -
  have "((2 * u + w) / 3) ^ 3 - u\<^sup>2 * w = (u - w)\<^sup>2 * (8 * u + w) / 27"
    by (simp add: power2_eq_square power3_eq_cube field_simps)
  moreover have "0 \<le> (u - w)\<^sup>2 * (8 * u + w) / 27"
    using assms by simp
  ultimately show ?thesis
    by linarith
qed

lemma chord_bound:
  fixes A B t t1 t2 m :: real
  assumes t: "t1 \<le> t" "t \<le> t2" "t1 < t2"
    and conc: "2 * t2 + t1 + B \<le> 4 * A"
    and m1: "m \<le> (A - t1 / 2)\<^sup>2 * (B + t1)"
    and m2: "m \<le> (A - t2 / 2)\<^sup>2 * (B + t2)"
  shows "m \<le> (A - t / 2)\<^sup>2 * (B + t)"
proof -
  define q where "q = (\<lambda>s. (A - s / 2)\<^sup>2 * (B + s))"
  have id: "(t2 - t1) * q t - (q t1 * (t2 - t) + q t2 * (t - t1))
        = (t2 - t1) * ((t - t1) * (t2 - t)) * ((4 * A - B - t - t1 - t2) / 4)"
    by (simp add: q_def power2_eq_square field_simps)
  have "0 \<le> (t2 - t1) * ((t - t1) * (t2 - t)) * ((4 * A - B - t - t1 - t2) / 4)"
    using t conc by (intro mult_nonneg_nonneg) simp_all
  with id have "q t1 * (t2 - t) + q t2 * (t - t1) \<le> (t2 - t1) * q t"
    by linarith
  moreover have "m * (t2 - t) \<le> q t1 * (t2 - t)"
    using m1 t by (intro mult_right_mono) (simp_all add: q_def)
  moreover have "m * (t - t1) \<le> q t2 * (t - t1)"
    using m2 t by (intro mult_right_mono) (simp_all add: q_def)
  ultimately have "m * (t2 - t) + m * (t - t1) \<le> (t2 - t1) * q t"
    by linarith
  then have "(t2 - t1) * m \<le> (t2 - t1) * q t"
    by (simp add: algebra_simps)
  then have "m \<le> q t"
    using t(3) by simp
  then show ?thesis
    by (simp add: q_def)
qed

text \<open>The three shapes of the coarse estimate, as inequalities between integers.\<close>

lemma cubic_bounds:
  fixes Fh F :: int and A m M :: real
  assumes f: "2 * Fh \<le> F" "F \<le> 2 * Fh + 1"
    and r: "0 \<le> t1" "t1 \<le> real_of_int F" "real_of_int F \<le> t2" "t1 < t2"
    and pos: "0 \<le> A - t2 / 2"
    and conc: "2 * t2 + t1 + 8388608 \<le> 4 * A"
    and m1: "m \<le> (A - t1 / 2)\<^sup>2 * (8388608 + t1)"
    and m2: "m \<le> (A - t2 / 2)\<^sup>2 * (8388608 + t2)"
    and up: "((2 * A + 8388609) / 3) ^ 3 \<le> M"
  shows "m \<le> (A - real_of_int Fh)\<^sup>2 * (8388608 + real_of_int F)"
    and "(A - real_of_int Fh)\<^sup>2 * (8388608 + real_of_int F) \<le> M"
proof -
  define u where "u = A - real_of_int Fh"
  define w where "w = 8388608 + real_of_int F"
  define t where "t = real_of_int F"
  have fh: "real_of_int Fh \<le> t / 2" "t \<le> 2 * real_of_int Fh + 1"
    using f by (simp_all add: t_def)
  have t: "t1 \<le> t" "t \<le> t2"
    using r by (simp_all add: t_def)
  have w0: "0 \<le> w"
    using r by (simp add: w_def)
  have lo: "0 \<le> A - t / 2" "A - t / 2 \<le> u"
    using pos t fh by (simp_all add: u_def)
  then have u0: "0 \<le> u"
    by simp
  have "m \<le> (A - t / 2)\<^sup>2 * (8388608 + t)"
    using t r(4) conc m1 m2 by (rule chord_bound)
  also have "\<dots> \<le> u\<^sup>2 * (8388608 + t)"
    using lo w0 by (intro mult_right_mono power_mono) (simp_all add: w_def t_def)
  finally show "m \<le> (A - real_of_int Fh)\<^sup>2 * (8388608 + real_of_int F)"
    by (simp add: u_def t_def)
  have "u\<^sup>2 * w \<le> ((2 * u + w) / 3) ^ 3"
    using u0 w0 by (rule amgm_square)
  also have "\<dots> \<le> ((2 * A + 8388609) / 3) ^ 3"
    using u0 w0 fh by (intro power_mono) (simp_all add: u_def w_def t_def)
  also note up
  finally show "(A - real_of_int Fh)\<^sup>2 * (8388608 + real_of_int F) \<le> M"
    by (simp add: u_def w_def)
qed

lemma shape_even_low:
  fixes Fh F :: int
  assumes "0 \<le> Fh" and "Fh \<le> 3627487" and "2 * Fh \<le> F" and "F \<le> 2 * Fh + 1"
  shows "9323 / 10000 * 2 ^ 70 \<le> (12016095 - real_of_int Fh)\<^sup>2 * (8388608 + real_of_int F)"
    and "(12016095 - real_of_int Fh)\<^sup>2 * (8388608 + real_of_int F) \<le> 10692 / 10000 * 2 ^ 70"
proof -
  have r: "(0::real) \<le> 0" "0 \<le> real_of_int F" "real_of_int F \<le> 7254975" "(0::real) < 7254975"
    using assms by simp_all
  show "9323 / 10000 * 2 ^ 70 \<le> (12016095 - real_of_int Fh)\<^sup>2 * (8388608 + real_of_int F)"
    by (rule cubic_bounds(1) [OF assms(3,4) r, of 12016095 _ "10692 / 10000 * 2 ^ 70"])
       (simp_all add: power2_eq_square power3_eq_cube)
  show "(12016095 - real_of_int Fh)\<^sup>2 * (8388608 + real_of_int F) \<le> 10692 / 10000 * 2 ^ 70"
    by (rule cubic_bounds(2) [OF assms(3,4) r, of 12016095 "9323 / 10000 * 2 ^ 70"])
       (simp_all add: power2_eq_square power3_eq_cube)
qed


lemma shape_even_high:
  fixes Fh F :: int
  assumes "3627487 < Fh" and "F < 8388608" and "2 * Fh \<le> F" and "F \<le> 2 * Fh + 1"
  shows "9323 / 10000 * 2 ^ 72 \<le> (20404703 - real_of_int Fh)\<^sup>2 * (8388608 + real_of_int F)"
    and "(20404703 - real_of_int Fh)\<^sup>2 * (8388608 + real_of_int F) \<le> 10692 / 10000 * 2 ^ 72"
proof -
  have "7254976 \<le> F" "F \<le> 8388607"
    using assms by simp_all
  then have r: "(0::real) \<le> 7254976" "7254976 \<le> real_of_int F" "real_of_int F \<le> 8388607"
      "(7254976::real) < 8388607"
    by simp_all
  show "9323 / 10000 * 2 ^ 72 \<le> (20404703 - real_of_int Fh)\<^sup>2 * (8388608 + real_of_int F)"
    by (rule cubic_bounds(1) [OF assms(3,4) r, of 20404703 _ "10692 / 10000 * 2 ^ 72"])
       (simp_all add: power2_eq_square power3_eq_cube)
  show "(20404703 - real_of_int Fh)\<^sup>2 * (8388608 + real_of_int F) \<le> 10692 / 10000 * 2 ^ 72"
    by (rule cubic_bounds(2) [OF assms(3,4) r, of 20404703 "9323 / 10000 * 2 ^ 72"])
       (simp_all add: power2_eq_square power3_eq_cube)
qed

lemma shape_odd:
  fixes Fh F :: int
  assumes "0 \<le> F" and "F < 8388608" and "2 * Fh \<le> F" and "F \<le> 2 * Fh + 1"
  shows "9323 / 10000 * 2 ^ 71 \<le> (16210399 - real_of_int Fh)\<^sup>2 * (8388608 + real_of_int F)"
    and "(16210399 - real_of_int Fh)\<^sup>2 * (8388608 + real_of_int F) \<le> 10692 / 10000 * 2 ^ 71"
proof -
  have "F \<le> 8388607"
    using assms by simp
  with assms(1) have r: "(0::real) \<le> 0" "0 \<le> real_of_int F" "real_of_int F \<le> 8388607"
      "(0::real) < 8388607"
    by simp_all
  show "9323 / 10000 * 2 ^ 71 \<le> (16210399 - real_of_int Fh)\<^sup>2 * (8388608 + real_of_int F)"
    by (rule cubic_bounds(1) [OF assms(3,4) r, of 16210399 _ "10692 / 10000 * 2 ^ 71"])
       (simp_all add: power2_eq_square power3_eq_cube)
  show "(16210399 - real_of_int Fh)\<^sup>2 * (8388608 + real_of_int F) \<le> 10692 / 10000 * 2 ^ 71"
    by (rule cubic_bounds(2) [OF assms(3,4) r, of 16210399 "9323 / 10000 * 2 ^ 71"])
       (simp_all add: power2_eq_square power3_eq_cube)
qed

lemma valof_normal_pos:
  assumes "is_normal_pos a"
  shows "valof a = (8388608 + real_of_int (uint a mod 8388608)) * pow2 (uint a div 8388608 - 150)"
    and "is_finite a"
  using valof_Fin [OF decode_normal_pos [OF assms]] is_finite_Fin [OF decode_normal_pos [OF assms]]
  by (simp_all add: real_signed)

lemma normal_pos_fields:
  assumes "uint w = e * 8388608 + f" and "0 \<le> f" and "f < 8388608" and "1 \<le> e" and "e \<le> 254"
  shows "is_normal_pos w"
    and "valof w = (8388608 + real_of_int f) * pow2 (e - 150)"
proof -
  have d: "uint w div 8388608 = e"
    using assms(1-3) by (intro int_div_pos_eq [of _ _ _ f]) simp_all
  have m: "uint w mod 8388608 = f"
    using assms(1-3) by (intro int_mod_pos_eq [of _ _ e]) simp_all
  have "8388608 \<le> uint w" "uint w < 255 * 8388608"
    using assms by simp_all
  then show n: "is_normal_pos w"
    by (simp add: is_normal_pos_def)
  show "valof w = (8388608 + real_of_int f) * pow2 (e - 150)"
    using valof_normal_pos(1) [OF n] by (simp add: d m)
qed

lemma pow2_combine: "(pow2 i)\<^sup>2 * pow2 j = pow2 (2 * i + j)"
proof -
  have "pow2 (2 * i + j) = pow2 (i + i + j)"
    by simp
  also have "\<dots> = pow2 i * pow2 i * pow2 j"
    by (simp only: pow2_add)
  finally show ?thesis
    by (simp add: power2_eq_square)
qed

text \<open>The coarse estimate \<open>y0\<close>, read from the bits \<open>0x5f3759df - (i >> 1)\<close>: its square times
  the argument lies between 0.9323 and 1.0692.\<close>

lemma coarse_estimate:
  assumes np: "is_normal_pos a"
  defines "y0 \<equiv> 0x5f3759df - signed_drop_bit 1 a"
  shows "is_normal_pos y0"
    and "9323 / 10000 \<le> (valof y0)\<^sup>2 * valof a"
    and "(valof y0)\<^sup>2 * valof a \<le> 10692 / 10000"
proof -
  define I where "I = uint a"
  define E where "E = I div 8388608"
  define F where "F = I mod 8388608"
  define n where "n = E div 2"
  define p where "p = E mod 2"
  define Fh where "Fh = F div 2"
  have I: "8388608 \<le> I" "I < 255 * 8388608"
    using np by (simp_all add: is_normal_pos_def I_def)
  have IEF: "I = E * 8388608 + F"
    by (simp add: E_def F_def)
  have F: "0 \<le> F" "F < 8388608"
    by (simp_all add: F_def)
  have E: "1 \<le> E" "E \<le> 254"
    using I by (simp_all add: E_def)
  have Enp: "E = 2 * n + p"
    by (simp add: n_def p_def)
  have p: "p = 0 \<or> p = 1"
    by (auto simp: p_def)
  have n: "0 \<le> n" "n \<le> 127"
    using E by (simp_all add: n_def)
  have Fh: "2 * Fh \<le> F" "F \<le> 2 * Fh + 1"
    by (simp_all add: Fh_def)
  have Fh0: "0 \<le> Fh" "Fh < 4194304"
    using F by (simp_all add: Fh_def)
  have va: "valof a = (8388608 + real_of_int F) * pow2 (E - 150)"
    using valof_normal_pos(1) [OF np] by (simp add: E_def F_def I_def)
  have "I = 2 * (n * 8388608 + p * 4194304 + Fh) + F mod 2"
    unfolding IEF Enp by (simp add: Fh_def algebra_simps)
  then have half: "I div 2 = n * 8388608 + p * 4194304 + Fh"
    by (intro int_div_pos_eq [of _ _ _ "F mod 2"]) simp_all
  have J: "uint y0 = 1597463007 - (n * 8388608 + p * 4194304 + Fh)"
    using uint_magic_minus [OF np] by (simp add: y0_def half [unfolded I_def])
  consider (even_low) "p = 0" "Fh \<le> 3627487" | (even_high) "p = 0" "3627487 < Fh" | (odd) "p = 1"
    using p by fastforce
  then have "is_normal_pos y0 \<and> 9323 / 10000 \<le> (valof y0)\<^sup>2 * valof a \<and>
      (valof y0)\<^sup>2 * valof a \<le> 10692 / 10000"
  proof cases
    case even_low
    have u: "uint y0 = (190 - n) * 8388608 + (3627487 - Fh)"
      unfolding J using even_low by (simp add: algebra_simps)
    note y = normal_pos_fields [OF u]
    have c: "0 \<le> 3627487 - Fh" "3627487 - Fh < 8388608" "1 \<le> 190 - n" "190 - n \<le> 254"
      using even_low Fh0 n by simp_all
    have vy: "valof y0 = (12016095 - real_of_int Fh) * pow2 (40 - n)"
      using y(2) [OF c] by simp
    have "(valof y0)\<^sup>2 * valof a
        = (12016095 - real_of_int Fh)\<^sup>2 * (8388608 + real_of_int F) * ((pow2 (40 - n))\<^sup>2 * pow2 (E - 150))"
      by (simp add: vy va power_mult_distrib)
    also have "(pow2 (40 - n))\<^sup>2 * pow2 (E - 150) = pow2 (- 70)"
      unfolding pow2_combine using even_low Enp by simp
    finally have x: "(valof y0)\<^sup>2 * valof a
        = (12016095 - real_of_int Fh)\<^sup>2 * (8388608 + real_of_int F) / 2 ^ 70"
      by simp
    show ?thesis
      using y(1) [OF c] shape_even_low [OF Fh0(1) even_low(2) Fh] unfolding x
      by (simp add: field_simps)
  next
    case even_high
    have u: "uint y0 = (189 - n) * 8388608 + (12016095 - Fh)"
      unfolding J using even_high by (simp add: algebra_simps)
    note y = normal_pos_fields [OF u]
    have c: "0 \<le> 12016095 - Fh" "12016095 - Fh < 8388608" "1 \<le> 189 - n" "189 - n \<le> 254"
      using even_high Fh0 n by simp_all
    have vy: "valof y0 = (20404703 - real_of_int Fh) * pow2 (39 - n)"
      using y(2) [OF c] by simp
    have "(valof y0)\<^sup>2 * valof a
        = (20404703 - real_of_int Fh)\<^sup>2 * (8388608 + real_of_int F) * ((pow2 (39 - n))\<^sup>2 * pow2 (E - 150))"
      by (simp add: vy va power_mult_distrib)
    also have "(pow2 (39 - n))\<^sup>2 * pow2 (E - 150) = pow2 (- 72)"
      unfolding pow2_combine using even_high Enp by simp
    finally have x: "(valof y0)\<^sup>2 * valof a
        = (20404703 - real_of_int Fh)\<^sup>2 * (8388608 + real_of_int F) / 2 ^ 72"
      by simp
    show ?thesis
      using y(1) [OF c] shape_even_high [OF even_high(2) F(2) Fh] unfolding x
      by (simp add: field_simps)
  next
    case odd
    have u: "uint y0 = (189 - n) * 8388608 + (7821791 - Fh)"
      unfolding J using odd by (simp add: algebra_simps)
    note y = normal_pos_fields [OF u]
    have c: "0 \<le> 7821791 - Fh" "7821791 - Fh < 8388608" "1 \<le> 189 - n" "189 - n \<le> 254"
      using odd Fh0 n by simp_all
    have vy: "valof y0 = (16210399 - real_of_int Fh) * pow2 (39 - n)"
      using y(2) [OF c] by simp
    have "(valof y0)\<^sup>2 * valof a
        = (16210399 - real_of_int Fh)\<^sup>2 * (8388608 + real_of_int F) * ((pow2 (39 - n))\<^sup>2 * pow2 (E - 150))"
      by (simp add: vy va power_mult_distrib)
    also have "(pow2 (39 - n))\<^sup>2 * pow2 (E - 150) = pow2 (- 71)"
      unfolding pow2_combine using odd Enp by simp
    finally have x: "(valof y0)\<^sup>2 * valof a
        = (16210399 - real_of_int Fh)\<^sup>2 * (8388608 + real_of_int F) / 2 ^ 71"
      by simp
    show ?thesis
      using y(1) [OF c] shape_odd [OF F Fh] unfolding x
      by (simp add: field_simps)
  qed
  then show "is_normal_pos y0"
    and "9323 / 10000 \<le> (valof y0)\<^sup>2 * valof a"
    and "(valof y0)\<^sup>2 * valof a \<le> 10692 / 10000"
    by simp_all
qed

section \<open>The Newton step\<close>

text \<open>In the range of the normal numbers the rounding error is relative.\<close>

lemma rel_err:
  fixes v e :: real
  assumes "\<bar>v - e\<bar> \<le> \<bar>e\<bar> / 2 ^ 24 + 1 / 2 ^ 150" and "1 / 2 ^ 127 \<le> \<bar>e\<bar>"
  shows "\<bar>v - e\<bar> \<le> \<bar>e\<bar> / 2 ^ 22"
proof -
  have "(1::real) / 2 ^ 150 = (1 / 2 ^ 127) / 2 ^ 23"
    by simp
  also have "\<dots> \<le> \<bar>e\<bar> / 2 ^ 23"
    using assms(2) by (rule divide_right_mono) simp
  finally have "(1::real) / 2 ^ 150 \<le> \<bar>e\<bar> / 2 ^ 23" .
  moreover have "\<bar>e\<bar> / 2 ^ 24 + \<bar>e\<bar> / 2 ^ 23 \<le> \<bar>e\<bar> / 2 ^ 22"
    by simp
  ultimately show ?thesis
    using assms(1) by linarith
qed

lemma fmul_rel:
  assumes "is_finite a" and "is_finite b"
    and "1 / 2 ^ 127 \<le> \<bar>valof a * valof b\<bar>" and "\<bar>valof a * valof b\<bar> < 2 ^ 127"
  shows "is_finite (fmul a b)"
    and "\<bar>valof (fmul a b) - valof a * valof b\<bar> \<le> \<bar>valof a * valof b\<bar> / 2 ^ 22"
proof -
  show f: "is_finite (fmul a b)"
    using assms by (intro fmul_spec(1))
  show "\<bar>valof (fmul a b) - valof a * valof b\<bar> \<le> \<bar>valof a * valof b\<bar> / 2 ^ 22"
    using fmul_spec(2) [OF assms(1,2) f] assms(3) by (rule rel_err)
qed

lemma fsub_rel:
  assumes "is_finite a" and "is_finite b"
    and "1 / 2 ^ 127 \<le> \<bar>valof a - valof b\<bar>" and "\<bar>valof a - valof b\<bar> < 2 ^ 127"
  shows "is_finite (fsub a b)"
    and "\<bar>valof (fsub a b) - (valof a - valof b)\<bar> \<le> \<bar>valof a - valof b\<bar> / 2 ^ 22"
proof -
  show f: "is_finite (fsub a b)"
    using assms by (intro fsub_spec(1))
  show "\<bar>valof (fsub a b) - (valof a - valof b)\<bar> \<le> \<bar>valof a - valof b\<bar> / 2 ^ 22"
    using fsub_spec(2) [OF assms(1,2) f] assms(3) by (rule rel_err)
qed

lemma fadd_rel:
  assumes "is_finite a" and "is_finite b"
    and "1 / 2 ^ 127 \<le> \<bar>valof a + valof b\<bar>" and "\<bar>valof a + valof b\<bar> < 2 ^ 127"
  shows "is_finite (fadd a b)"
    and "\<bar>valof (fadd a b) - (valof a + valof b)\<bar> \<le> \<bar>valof a + valof b\<bar> / 2 ^ 22"
proof -
  show f: "is_finite (fadd a b)"
    using assms by (intro fadd_spec(1))
  show "\<bar>valof (fadd a b) - (valof a + valof b)\<bar> \<le> \<bar>valof a + valof b\<bar> / 2 ^ 22"
    using fadd_spec(2) [OF assms(1,2) f] assms(3) by (rule rel_err)
qed

text \<open>A relative error as a factor near one.\<close>

lemma rel_factor:
  fixes v e d :: real
  assumes "0 < e" and "\<bar>v - e\<bar> \<le> e * d"
  obtains k where "v = e * k" and "\<bar>k - 1\<bar> \<le> d"
proof
  show "v = e * (v / e)"
    using assms(1) by simp
  have "\<bar>v / e - 1\<bar> = \<bar>v - e\<bar> / e"
    using assms(1) by (simp add: field_simps abs_if)
  also have "\<dots> \<le> d"
    using assms by (simp add: field_simps)
  finally show "\<bar>v / e - 1\<bar> \<le> d" .
qed

lemma prod_near_one:
  fixes a b x y :: real
  assumes "\<bar>a - 1\<bar> \<le> x" and "\<bar>b - 1\<bar> \<le> y"
  shows "\<bar>a * b - 1\<bar> \<le> x + y + x * y"
proof -
  define p where "p = (a - 1) * (b - 1)"
  define c where "c = a * b"
  have "c - 1 = p + (a - 1) + (b - 1)"
    by (simp add: p_def c_def algebra_simps)
  then have "\<bar>c - 1\<bar> \<le> \<bar>p\<bar> + \<bar>a - 1\<bar> + \<bar>b - 1\<bar>"
    by linarith
  moreover have "\<bar>p\<bar> = \<bar>a - 1\<bar> * \<bar>b - 1\<bar>"
    unfolding p_def by (rule abs_mult)
  moreover have "\<bar>a - 1\<bar> * \<bar>b - 1\<bar> \<le> x * y"
    using assms by (intro mult_mono) simp_all
  ultimately show ?thesis
    using assms unfolding c_def by linarith
qed

text \<open>One Newton step on an estimate \<open>y\<close> with \<open>u = y * sqrt x\<close> near one, every operation
  with a relative error \<open>k\<close>: the result times \<open>sqrt x\<close> is \<open>u * (3/2 - u\<^sup>2/2)\<close> up to these
  errors, and \<open>1 - u * (3/2 - u\<^sup>2/2) = (u - 1)\<^sup>2 * (u + 2) / 2\<close>.\<close>

lemma newton_factor:
  fixes u kh k1 k2 k3 k4 :: real
  assumes u: "9655 / 10000 \<le> u" "u \<le> 10341 / 10000"
    and kh: "\<bar>kh - 1\<bar> \<le> 1 / 2 ^ 22" and k1: "\<bar>k1 - 1\<bar> \<le> 1 / 2 ^ 22"
    and k2: "\<bar>k2 - 1\<bar> \<le> 1 / 2 ^ 22" and k3: "\<bar>k3 - 1\<bar> \<le> 1 / 2 ^ 22"
    and k4: "\<bar>k4 - 1\<bar> \<le> 1 / 2 ^ 22"
  shows "\<bar>u * (3 / 2 - u\<^sup>2 / 2 * (kh * k1 * k2)) * (k3 * k4) - 1\<bar> \<le> 2 / 1000"
proof -
  define th where "th = kh * k1 * k2"
  define ph where "ph = k3 * k4"
  define w where "w = (u - 1)\<^sup>2 * (u + 2) / 2"
  define c where "c = u ^ 3 / 2"
  define T where "T = u * (3 / 2 - u\<^sup>2 / 2 * th)"
  have "\<bar>kh * k1 - 1\<bar> \<le> 1 / 2 ^ 22 + 1 / 2 ^ 22 + (1 / 2 ^ 22) * (1 / 2 ^ 22)"
    using kh k1 by (rule prod_near_one)
  then have "\<bar>kh * k1 - 1\<bar> \<le> 1 / 2 ^ 20"
    by simp
  then have "\<bar>kh * k1 * k2 - 1\<bar> \<le> 1 / 2 ^ 20 + 1 / 2 ^ 22 + (1 / 2 ^ 20) * (1 / 2 ^ 22)"
    using k2 by (rule prod_near_one)
  then have th: "\<bar>th - 1\<bar> \<le> 1 / 2 ^ 19"
    by (simp add: th_def)
  have "\<bar>k3 * k4 - 1\<bar> \<le> 1 / 2 ^ 22 + 1 / 2 ^ 22 + (1 / 2 ^ 22) * (1 / 2 ^ 22)"
    using k3 k4 by (rule prod_near_one)
  then have ph: "\<bar>ph - 1\<bar> \<le> 1 / 2 ^ 20"
    by (simp add: ph_def)
  have "\<bar>u - 1\<bar> \<le> 345 / 10000"
    using u by linarith
  then have "\<bar>u - 1\<bar> \<le> \<bar>345 / 10000 :: real\<bar>"
    by simp
  then have "(u - 1)\<^sup>2 \<le> (345 / 10000)\<^sup>2"
    by (simp only: abs_le_square_iff)
  moreover have "0 \<le> u + 2" "u + 2 \<le> 30341 / 10000"
    using u by simp_all
  ultimately have "(u - 1)\<^sup>2 * (u + 2) \<le> (345 / 10000)\<^sup>2 * (30341 / 10000)"
    by (intro mult_mono) simp_all
  then have w: "0 \<le> w" "w \<le> 18058 / 10000000"
    using u by (simp_all add: w_def power2_eq_square)
  have "u ^ 3 \<le> (10341 / 10000) ^ 3"
    using u by (intro power_mono) simp_all
  then have c: "0 \<le> c" "c \<le> 56 / 100"
    using u by (simp_all add: c_def power3_eq_cube)
  have "\<bar>c * (th - 1)\<bar> \<le> (56 / 100) * (1 / 2 ^ 19)"
    unfolding abs_mult using c th by (intro mult_mono) simp_all
  then have cth: "\<bar>c * (th - 1)\<bar> \<le> 11 / 10000000"
    by simp
  have "T - 1 = - w - c * (th - 1)"
    by (simp add: T_def w_def c_def power2_eq_square power3_eq_cube field_simps)
  then have T: "\<bar>T - 1\<bar> \<le> 181 / 100000"
    using w cth by linarith
  have "\<bar>T * ph - 1\<bar> \<le> 181 / 100000 + 1 / 2 ^ 20 + (181 / 100000) * (1 / 2 ^ 20)"
    using T ph by (rule prod_near_one)
  then have "\<bar>T * ph - 1\<bar> \<le> 2 / 1000"
    by simp
  then show ?thesis
    by (simp add: T_def ph_def th_def)
qed

lemma normal_pos_range:
  assumes "is_normal_pos w"
  shows "1 / 2 ^ 126 \<le> valof w" and "valof w < 2 ^ 128"
proof -
  define e where "e = uint w div 8388608"
  define f where "f = uint w mod 8388608"
  have v: "valof w = (8388608 + real_of_int f) * pow2 (e - 150)"
    using valof_normal_pos(1) [OF assms] by (simp add: e_def f_def)
  have f: "0 \<le> f" "f < 8388608"
    by (simp_all add: f_def)
  have I: "8388608 \<le> uint w" "uint w < 255 * 8388608"
    using assms by (simp_all add: is_normal_pos_def)
  have e: "1 \<le> e" "e \<le> 254"
    using I by (simp_all add: e_def)
  have "pow2 (- 149) \<le> pow2 (e - 150)" "pow2 (e - 150) \<le> pow2 104"
    using e by (simp_all add: pow2_mono del: pow2_neg_numeral pow2_numeral)
  then have p: "1 / 2 ^ 149 \<le> pow2 (e - 150)" "pow2 (e - 150) \<le> 2 ^ 104"
    by simp_all
  have "8388608 * (1 / 2 ^ 149) \<le> (8388608 + real_of_int f) * pow2 (e - 150)"
    using f p by (intro mult_mono) simp_all
  then show "1 / 2 ^ 126 \<le> valof w"
    by (simp add: v)
  have "(8388608 + real_of_int f) * pow2 (e - 150) \<le> (8388608 + real_of_int f) * 2 ^ 104"
    using f p by (intro mult_left_mono) simp_all
  also have "\<dots> < 16777216 * 2 ^ 104"
    using f by (intro mult_strict_right_mono) simp_all
  finally show "valof w < 2 ^ 128"
    by (simp add: v)
qed

lemma near_one_range:
  fixes k :: real
  assumes "\<bar>k - 1\<bar> \<le> 1 / 2 ^ 22"
  shows "999 / 1000 \<le> k" and "k \<le> 1001 / 1000"
proof -
  have "(1::real) / 2 ^ 22 \<le> 1 / 1000"
    by simp
  with assms show "999 / 1000 \<le> k" and "k \<le> 1001 / 1000"
    by linarith+
qed

lemma half_bits: "flit 5 10 = 0x3F000000" "flit 15 10 = 0x3FC00000"
  by code_simp+

lemma half_val: "is_finite (flit 5 10)" "valof (flit 5 10) = 1 / 2"
  "is_finite (flit 15 10)" "valof (flit 15 10) = 3 / 2"
proof -
  have d: "decode 0x3F000000 = Fin False 8388608 (- 24)" "decode 0x3FC00000 = Fin False 12582912 (- 23)"
    by code_simp+
  show "is_finite (flit 5 10)" "valof (flit 5 10) = 1 / 2"
    "is_finite (flit 15 10)" "valof (flit 15 10) = 3 / 2"
    unfolding half_bits by (simp_all add: valof_Fin [OF d(1)] valof_Fin [OF d(2)]
        is_finite_Fin [OF d(1)] is_finite_Fin [OF d(2)] real_signed)
qed

lemma invSqrt_unfold:
  "invSqrt a =
     fmul (0x5f3759df - signed_drop_bit 1 a)
       (fsub (flit 15 10)
          (fmul (fmul (fmul (flit 5 10) a) (0x5f3759df - signed_drop_bit 1 a))
             (0x5f3759df - signed_drop_bit 1 a)))"
  by (simp add: invSqrt_def Let_def)

lemma magnitude:
  fixes e lo hi :: real
  assumes "lo \<le> e" and "e \<le> hi" and "1 / 2 ^ 127 \<le> lo" and "hi < 2 ^ 127"
  shows "1 / 2 ^ 127 \<le> \<bar>e\<bar>" and "\<bar>e\<bar> < 2 ^ 127"
proof -
  have "(0::real) < 1 / 2 ^ 127"
    by simp
  with assms show "1 / 2 ^ 127 \<le> \<bar>e\<bar>" and "\<bar>e\<bar> < 2 ^ 127"
    by linarith+
qed

lemma invSqrt_normal:
  assumes np: "is_normal_pos a"
  shows "is_finite (invSqrt a)"
    and "\<bar>valof (invSqrt a) * sqrt (valof a) - 1\<bar> \<le> 2 / 1000"
proof -
  define y0 where "y0 = 0x5f3759df - signed_drop_bit 1 a"
  define vx where "vx = valof a"
  define vy where "vy = valof y0"
  define s where "s = sqrt vx"
  define u where "u = vy * s"
  define h where "h = fmul (flit 5 10) a"
  define p1 where "p1 = fmul h y0"
  define p2 where "p2 = fmul p1 y0"
  define d where "d = fsub (flit 15 10) p2"
  have res: "invSqrt a = fmul y0 d"
    by (simp add: invSqrt_unfold y0_def d_def p2_def p1_def h_def)
  note ce = coarse_estimate [OF np, folded y0_def, folded vx_def vy_def]
  have fa: "is_finite a"
    using np by (rule valof_normal_pos(2))
  have fy: "is_finite y0"
    using ce(1) by (rule valof_normal_pos(2))
  have vx: "1 / 2 ^ 126 \<le> vx" "vx < 2 ^ 128"
    using normal_pos_range [OF np] by (simp_all add: vx_def)
  have tiny: "(0::real) < 1 / 2 ^ 126"
    by simp
  have vy0: "0 < vy"
    using normal_pos_range(1) [OF ce(1)] tiny unfolding vy_def by linarith
  have vx0: "0 < vx"
    using vx(1) tiny by linarith
  have s0: "0 < s"
    using vx0 by (simp add: s_def)
  have s2: "s\<^sup>2 = vx"
    using vx0 by (simp add: s_def)
  have "(1 / 2 ^ 63)\<^sup>2 \<le> vx"
    using vx(1) by (simp add: power_divide)
  then have sl: "1 / 2 ^ 63 \<le> s"
    unfolding s_def by (rule real_le_rsqrt)
  have "vx < (2 ^ 64)\<^sup>2"
    using vx(2) by simp
  then have su: "s < 2 ^ 64"
    unfolding s_def by (intro real_less_lsqrt) simp_all
  have u0: "0 < u"
    using vy0 s0 by (simp add: u_def)
  have u2: "u\<^sup>2 = vy\<^sup>2 * vx"
    by (simp add: u_def power_mult_distrib s2)
  have "(9655 / 10000)\<^sup>2 \<le> (9323 / 10000 :: real)"
    by (simp add: power2_eq_square)
  also have "\<dots> \<le> vy\<^sup>2 * vx"
    by (rule ce(2))
  finally have "(9655 / 10000)\<^sup>2 \<le> u\<^sup>2"
    by (simp only: u2)
  then have ul: "9655 / 10000 \<le> u"
    by (rule power2_le_imp_le) (use u0 in simp)
  have "u\<^sup>2 = vy\<^sup>2 * vx"
    by (rule u2)
  also have "\<dots> \<le> 10692 / 10000"
    by (rule ce(3))
  also have "\<dots> \<le> (10341 / 10000 :: real)\<^sup>2"
    by (simp add: power2_eq_square)
  finally have "u\<^sup>2 \<le> (10341 / 10000)\<^sup>2" .
  then have uu: "u \<le> 10341 / 10000"
    by (rule power2_le_imp_le) simp
  have su_l: "(1 / 2 ^ 63) * (9655 / 10000) \<le> s * u"
    by (rule mult_mono) (use sl ul in simp_all)
  have su_u: "s * u \<le> 2 ^ 64 * (10341 / 10000)"
    by (rule mult_mono) (use su uu s0 u0 in simp_all)
  have su0: "0 < s * u"
    using s0 u0 by simp
  \<comment> \<open>\<open>halfx = 0.5f * x\<close>\<close>
  have eh: "valof (flit 5 10) * valof a = s\<^sup>2 / 2"
    by (simp add: half_val s2 vx_def)
  have eh0: "0 < s\<^sup>2 / 2"
    using s0 by simp
  have "1 / 2 ^ 127 \<le> \<bar>s\<^sup>2 / 2\<bar>" "\<bar>s\<^sup>2 / 2\<bar> < 2 ^ 127"
    using vx by (simp_all add: s2)
  from fmul_rel [OF half_val(1) fa, unfolded eh, OF this]
  have fh: "is_finite h" and "\<bar>valof h - s\<^sup>2 / 2\<bar> \<le> (s\<^sup>2 / 2) * (1 / 2 ^ 22)"
    using eh0 by (simp_all add: h_def)
  from rel_factor [OF eh0 this(2)] obtain kh
    where vh: "valof h = s\<^sup>2 / 2 * kh" and kh: "\<bar>kh - 1\<bar> \<le> 1 / 2 ^ 22"
    by blast
  note khr = near_one_range [OF kh]
  \<comment> \<open>\<open>halfx * y\<close>\<close>
  have e1: "valof h * valof y0 = s * u / 2 * kh"
    by (simp add: vh u_def vy_def power2_eq_square)
  have e1_l: "(1 / 2 ^ 63) * (9655 / 10000) / 2 * (999 / 1000) \<le> s * u / 2 * kh"
    by (rule mult_mono) (use su_l khr in simp_all)
  have e1_u: "s * u / 2 * kh \<le> 2 ^ 64 * (10341 / 10000) / 2 * (1001 / 1000)"
    by (rule mult_mono) (use su_u khr su0 in simp_all)
  have e10: "0 < s * u / 2 * kh"
    using su0 khr(1) by simp
  have "1 / 2 ^ 127 \<le> \<bar>s * u / 2 * kh\<bar>" "\<bar>s * u / 2 * kh\<bar> < 2 ^ 127"
    by (rule magnitude [OF e1_l e1_u]; simp)+
  from fmul_rel [OF fh fy, unfolded e1, OF this]
  have fp1: "is_finite p1" and "\<bar>valof p1 - s * u / 2 * kh\<bar> \<le> (s * u / 2 * kh) * (1 / 2 ^ 22)"
    using e10 by (simp_all add: p1_def)
  from rel_factor [OF e10 this(2)] obtain k1
    where vp1: "valof p1 = s * u / 2 * kh * k1" and k1: "\<bar>k1 - 1\<bar> \<le> 1 / 2 ^ 22"
    by blast
  note k1r = near_one_range [OF k1]
  \<comment> \<open>\<open>halfx * y * y\<close>\<close>
  have e2: "valof p1 * valof y0 = u\<^sup>2 / 2 * (kh * k1)"
    by (simp add: vp1 u_def vy_def power2_eq_square)
  have u2_l: "(9655 / 10000)\<^sup>2 \<le> u\<^sup>2" and u2_u: "u\<^sup>2 \<le> (10341 / 10000)\<^sup>2"
    using ul uu u0 by (simp_all add: power_mono)
  have kk_l: "(999 / 1000) * (999 / 1000) \<le> kh * k1"
    by (rule mult_mono) (use khr k1r in simp_all)
  have kk_u: "kh * k1 \<le> (1001 / 1000) * (1001 / 1000)"
    by (rule mult_mono) (use khr k1r in simp_all)
  have e2_l: "(9655 / 10000)\<^sup>2 / 2 * ((999 / 1000) * (999 / 1000)) \<le> u\<^sup>2 / 2 * (kh * k1)"
    by (rule mult_mono) (use u2_l kk_l in simp_all)
  have e2_u: "u\<^sup>2 / 2 * (kh * k1) \<le> (10341 / 10000)\<^sup>2 / 2 * ((1001 / 1000) * (1001 / 1000))"
    by (rule mult_mono) (use u2_u kk_u kk_l in simp_all)
  have e20: "0 < u\<^sup>2 / 2 * (kh * k1)"
    using u0 khr(1) k1r(1) by simp
  have "1 / 2 ^ 127 \<le> \<bar>u\<^sup>2 / 2 * (kh * k1)\<bar>" "\<bar>u\<^sup>2 / 2 * (kh * k1)\<bar> < 2 ^ 127"
    by (rule magnitude [OF e2_l e2_u]; simp add: power2_eq_square)+
  from fmul_rel [OF fp1 fy, unfolded e2, OF this]
  have fp2: "is_finite p2"
    and "\<bar>valof p2 - u\<^sup>2 / 2 * (kh * k1)\<bar> \<le> (u\<^sup>2 / 2 * (kh * k1)) * (1 / 2 ^ 22)"
    using e20 by (simp_all add: p2_def)
  from rel_factor [OF e20 this(2)] obtain k2
    where vp2: "valof p2 = u\<^sup>2 / 2 * (kh * k1) * k2" and k2: "\<bar>k2 - 1\<bar> \<le> 1 / 2 ^ 22"
    by blast
  note k2r = near_one_range [OF k2]
  have p2_l: "(9655 / 10000)\<^sup>2 / 2 * ((999 / 1000) * (999 / 1000)) * (999 / 1000) \<le> valof p2"
    unfolding vp2 by (rule mult_mono) (use e2_l k2r e20 in simp_all)
  have p2_u: "valof p2 \<le> (10341 / 10000)\<^sup>2 / 2 * ((1001 / 1000) * (1001 / 1000)) * (1001 / 1000)"
    unfolding vp2 by (rule mult_mono) (use e2_u k2r e20 in simp_all)
  \<comment> \<open>\<open>1.5f - halfx * y * y\<close>\<close>
  define e3 where "e3 = 3 / 2 - valof p2"
  have "(10341 / 10000)\<^sup>2 / 2 * ((1001 / 1000) * (1001 / 1000)) * (1001 / 1000) \<le> (6 / 10 :: real)"
    "(4 / 10 :: real) \<le> (9655 / 10000)\<^sup>2 / 2 * ((999 / 1000) * (999 / 1000)) * (999 / 1000)"
    by (simp_all add: power2_eq_square)
  with p2_l p2_u have e3r: "9 / 10 \<le> e3" "e3 \<le> 11 / 10"
    unfolding e3_def by linarith+
  then have e30: "0 < e3"
    by simp
  have e3: "valof (flit 15 10) - valof p2 = e3"
    by (simp add: half_val e3_def)
  have "1 / 2 ^ 127 \<le> \<bar>e3\<bar>" "\<bar>e3\<bar> < 2 ^ 127"
    by (rule magnitude [OF e3r]; simp)+
  from fsub_rel [OF half_val(3) fp2, unfolded e3, OF this]
  have fd: "is_finite d" and "\<bar>valof d - e3\<bar> \<le> e3 * (1 / 2 ^ 22)"
    using e30 by (simp_all add: d_def)
  from rel_factor [OF e30 this(2)] obtain k3
    where vd: "valof d = e3 * k3" and k3: "\<bar>k3 - 1\<bar> \<le> 1 / 2 ^ 22"
    by blast
  note k3r = near_one_range [OF k3]
  \<comment> \<open>\<open>y * (1.5f - halfx * y * y)\<close>\<close>
  have vys: "vy = u / s"
    using s0 by (simp add: u_def)
  have vy_l: "(9655 / 10000) / 2 ^ 64 \<le> vy"
    unfolding vys by (rule frac_le) (use ul su s0 in simp_all)
  have vy_u: "vy \<le> (10341 / 10000) / (1 / 2 ^ 63)"
    unfolding vys by (rule frac_le) (use uu sl u0 in simp_all)
  have ek_l: "(9 / 10) * (999 / 1000) \<le> e3 * k3"
    by (rule mult_mono) (use e3r k3r in simp_all)
  have ek_u: "e3 * k3 \<le> (11 / 10) * (1001 / 1000)"
    by (rule mult_mono) (use e3r k3r in simp_all)
  have e4: "valof y0 * valof d = vy * (e3 * k3)"
    by (simp add: vd vy_def)
  have e4_l: "(9655 / 10000) / 2 ^ 64 * ((9 / 10) * (999 / 1000)) \<le> vy * (e3 * k3)"
    by (rule mult_mono) (use vy_l ek_l in simp_all)
  have e4_u: "vy * (e3 * k3) \<le> (10341 / 10000) / (1 / 2 ^ 63) * ((11 / 10) * (1001 / 1000))"
    by (rule mult_mono) (use vy_u ek_u ek_l vy0 in simp_all)
  have e40: "0 < vy * (e3 * k3)"
    using vy0 e30 k3r(1) by simp
  have "1 / 2 ^ 127 \<le> \<bar>vy * (e3 * k3)\<bar>" "\<bar>vy * (e3 * k3)\<bar> < 2 ^ 127"
    by (rule magnitude [OF e4_l e4_u]; simp)+
  from fmul_rel [OF fy fd, unfolded e4, OF this]
  have fr: "is_finite (fmul y0 d)"
    and "\<bar>valof (fmul y0 d) - vy * (e3 * k3)\<bar> \<le> (vy * (e3 * k3)) * (1 / 2 ^ 22)"
    using e40 by simp_all
  from rel_factor [OF e40 this(2)] obtain k4
    where vr: "valof (fmul y0 d) = vy * (e3 * k3) * k4" and k4: "\<bar>k4 - 1\<bar> \<le> 1 / 2 ^ 22"
    by blast
  show "is_finite (invSqrt a)"
    using fr by (simp add: res)
  have "valof (invSqrt a) * sqrt (valof a) = u * (3 / 2 - u\<^sup>2 / 2 * (kh * k1 * k2)) * (k3 * k4)"
    by (simp add: res vr e3_def vp2 u_def s_def vx_def algebra_simps)
  then show "\<bar>valof (invSqrt a) * sqrt (valof a) - 1\<bar> \<le> 2 / 1000"
    using newton_factor [OF ul uu kh k1 k2 k3 k4] by simp
qed

section \<open>The sum of squares and the normalisation\<close>

lemma fround_nonneg:
  assumes "0 \<le> m" and "is_finite (fround False m e)"
  shows "0 \<le> valof (fround False m e)"
proof (cases "m = 0")
  case True
  then show ?thesis
    by (simp add: fround_alt valof_pack_zero)
next
  case False
  with assms have m: "0 < m"
    by simp
  have "valof (fround False m e) = real_of_int (round_sig m e) * pow2 (round_exp m e)"
    using fround_value(2) [OF m fround_overflow [OF m assms(2)]] by (simp add: real_signed)
  then show ?thesis
    using round_sig_bounds(1) [OF m, of e] by simp
qed

lemma fmul_square_nonneg:
  assumes "is_finite (fmul a a)"
  shows "0 \<le> valof (fmul a a)"
proof -
  from fmul_finiteD(1) [OF assms] obtain sa ma ea where a: "decode a = Fin sa ma ea" and "0 \<le> ma"
    by (rule is_finite_cases)
  then have "0 \<le> ma * ma"
    by simp
  then show ?thesis
    using assms by (simp add: fmul_def a fround_nonneg)
qed

lemma fadd_nonneg:
  assumes "is_finite (fadd a b)" and "0 \<le> valof a" and "0 \<le> valof b"
  shows "0 \<le> valof (fadd a b)"
proof -
  from fadd_finiteD(1) [OF assms(1)] obtain sa ma ea where a: "decode a = Fin sa ma ea"
    by (rule is_finite_cases)
  from fadd_finiteD(2) [OF assms(1)] obtain sb mb eb where b: "decode b = Fin sb mb eb"
    by (rule is_finite_cases)
  define g where "g = min ea eb"
  define t where "t = signed sa ma * 2 ^ nat (ea - g) + signed sb mb * 2 ^ nat (eb - g)"
  have f: "fadd a b = (if t = 0 then pack (sa \<and> sb) 0 else fround (t < 0) \<bar>t\<bar> g)"
    by (simp add: fadd_def a b Let_def g_def t_def)
  have "0 \<le> real_of_int (signed sa ma) * pow2 ea" "0 \<le> real_of_int (signed sb mb) * pow2 eb"
    using assms(2,3) by (simp_all add: valof_Fin [OF a] valof_Fin [OF b])
  then have "0 \<le> real_of_int (signed sa ma)" "0 \<le> real_of_int (signed sb mb)"
    using pow2_pos [of ea] pow2_pos [of eb] by (simp_all add: zero_le_mult_iff not_le [symmetric])
  then have "0 \<le> signed sa ma" "0 \<le> signed sb mb"
    by simp_all
  then have t: "0 \<le> t"
    by (simp add: t_def)
  show ?thesis
  proof (cases "t = 0")
    case True
    then show ?thesis by (simp add: f valof_pack_zero)
  next
    case False
    with t have "\<not> t < 0" "0 \<le> \<bar>t\<bar>"
      by simp_all
    with False assms(1) show ?thesis
      by (simp add: f fround_nonneg)
  qed
qed

text \<open>The sum of four squares as lines 118 and 138 compute it, against the exact sum.\<close>

lemma sumsq_error:
  fixes a0 a1 a2 a3 :: float32
  defines "r \<equiv> fadd (fadd (fadd (fmul a0 a0) (fmul a1 a1)) (fmul a2 a2)) (fmul a3 a3)"
  defines "S \<equiv> (valof a0)\<^sup>2 + (valof a1)\<^sup>2 + (valof a2)\<^sup>2 + (valof a3)\<^sup>2"
  assumes fin: "is_finite r"
  shows "is_finite a0" "is_finite a1" "is_finite a2" "is_finite a3"
    and "\<bar>valof r - S\<bar> \<le> S / 2 ^ 21 + 1 / 2 ^ 146"
proof -
  define s0 where "s0 = fmul a0 a0"
  define s1 where "s1 = fmul a1 a1"
  define s2 where "s2 = fmul a2 a2"
  define s3 where "s3 = fmul a3 a3"
  define b1 where "b1 = fadd s0 s1"
  define b2 where "b2 = fadd b1 s2"
  have r: "r = fadd b2 s3"
    by (simp add: r_def b2_def b1_def s0_def s1_def s2_def s3_def)
  have fb2: "is_finite b2" and fs3: "is_finite s3"
    using fadd_finiteD [of b2 s3] fin by (simp_all add: r)
  have fb1: "is_finite b1" and fs2: "is_finite s2"
    using fadd_finiteD [of b1 s2] fb2 by (simp_all add: b2_def)
  have fs0: "is_finite s0" and fs1: "is_finite s1"
    using fadd_finiteD [of s0 s1] fb1 by (simp_all add: b1_def)
  show f0: "is_finite a0" and f1: "is_finite a1" and f2: "is_finite a2" and f3: "is_finite a3"
    using fmul_finiteD(1) [of a0 a0] fmul_finiteD(1) [of a1 a1] fmul_finiteD(1) [of a2 a2]
      fmul_finiteD(1) [of a3 a3] fs0 fs1 fs2 fs3
    by (simp_all add: s0_def s1_def s2_def s3_def)
  define A0 where "A0 = (valof a0)\<^sup>2"
  define A1 where "A1 = (valof a1)\<^sup>2"
  define A2 where "A2 = (valof a2)\<^sup>2"
  define A3 where "A3 = (valof a3)\<^sup>2"
  have A: "0 \<le> A0" "0 \<le> A1" "0 \<le> A2" "0 \<le> A3"
    by (simp_all add: A0_def A1_def A2_def A3_def)
  have n: "0 \<le> valof s0" "0 \<le> valof s1" "0 \<le> valof s2" "0 \<le> valof s3"
    using fs0 fs1 fs2 fs3 unfolding s0_def s1_def s2_def s3_def by (simp_all add: fmul_square_nonneg)
  have nb1: "0 \<le> valof b1"
    using fb1 n unfolding b1_def by (simp add: fadd_nonneg)
  have nb2: "0 \<le> valof b2"
    using fb2 nb1 n unfolding b2_def by (simp add: fadd_nonneg)
  have e0: "\<bar>valof s0 - A0\<bar> \<le> A0 / 2 ^ 24 + 1 / 2 ^ 150"
    using fmul_spec(2) [OF f0 f0] fs0 by (simp add: s0_def A0_def power2_eq_square)
  have e1: "\<bar>valof s1 - A1\<bar> \<le> A1 / 2 ^ 24 + 1 / 2 ^ 150"
    using fmul_spec(2) [OF f1 f1] fs1 by (simp add: s1_def A1_def power2_eq_square)
  have e2: "\<bar>valof s2 - A2\<bar> \<le> A2 / 2 ^ 24 + 1 / 2 ^ 150"
    using fmul_spec(2) [OF f2 f2] fs2 by (simp add: s2_def A2_def power2_eq_square)
  have e3: "\<bar>valof s3 - A3\<bar> \<le> A3 / 2 ^ 24 + 1 / 2 ^ 150"
    using fmul_spec(2) [OF f3 f3] fs3 by (simp add: s3_def A3_def power2_eq_square)
  have c1: "\<bar>valof b1 - (valof s0 + valof s1)\<bar> \<le> (valof s0 + valof s1) / 2 ^ 24 + 1 / 2 ^ 150"
    using fadd_spec(2) [OF fs0 fs1] fb1 n by (simp add: b1_def)
  have c2: "\<bar>valof b2 - (valof b1 + valof s2)\<bar> \<le> (valof b1 + valof s2) / 2 ^ 24 + 1 / 2 ^ 150"
    using fadd_spec(2) [OF fb1 fs2] fb2 n nb1 by (simp add: b2_def)
  have c3: "\<bar>valof r - (valof b2 + valof s3)\<bar> \<le> (valof b2 + valof s3) / 2 ^ 24 + 1 / 2 ^ 150"
    using fadd_spec(2) [OF fb2 fs3] fin n nb2 by (simp add: r)
  have S: "S = A0 + A1 + A2 + A3"
    by (simp add: S_def A0_def A1_def A2_def A3_def)
  have h1: "\<bar>valof b1 - (A0 + A1)\<bar> \<le> (A0 + A1) * (4 / 2 ^ 24) + 4 / 2 ^ 150"
    using A n e0 e1 c1 by (simp add: add_divide_distrib distrib_right)
  have h2: "\<bar>valof b2 - (A0 + A1 + A2)\<bar> \<le> (A0 + A1 + A2) * (6 / 2 ^ 24) + 7 / 2 ^ 150"
    using A n nb1 e2 h1 c2 by (simp add: add_divide_distrib distrib_right)
  have h3: "\<bar>valof r - (A0 + A1 + A2 + A3)\<bar> \<le> (A0 + A1 + A2 + A3) * (8 / 2 ^ 24) + 10 / 2 ^ 150"
    using A n nb2 e3 h2 c3 by (simp add: add_divide_distrib distrib_right)
  show "\<bar>valof r - S\<bar> \<le> S / 2 ^ 21 + 1 / 2 ^ 146"
    unfolding S using h3 by (simp add: add_divide_distrib distrib_right)
qed

lemma square_diff_bound:
  fixes a c d m :: real
  assumes "\<bar>a - c\<bar> \<le> d" and "\<bar>c\<bar> \<le> m"
  shows "\<bar>a\<^sup>2 - c\<^sup>2\<bar> \<le> d * (2 * m + d)"
proof -
  have "a\<^sup>2 - c\<^sup>2 = (a - c) * (a + c)"
    by (simp add: power2_eq_square algebra_simps)
  then have "\<bar>a\<^sup>2 - c\<^sup>2\<bar> = \<bar>a - c\<bar> * \<bar>a + c\<bar>"
    by (simp add: abs_mult)
  also have "\<dots> \<le> d * (2 * m + d)"
    using assms by (intro mult_mono) linarith+
  finally show ?thesis .
qed

text \<open>Lines 138 to 142 on any four components whose sum of squares, as line 138 computes
  it, is a positive normal number.\<close>

lemma normalised_norm:
  fixes a0 a1 a2 a3 :: float32
  defines "r \<equiv> fadd (fadd (fadd (fmul a0 a0) (fmul a1 a1)) (fmul a2 a2)) (fmul a3 a3)"
  assumes np: "is_normal_pos r"
  shows "is_finite (fmul a0 (invSqrt r))" "is_finite (fmul a1 (invSqrt r))"
    "is_finite (fmul a2 (invSqrt r))" "is_finite (fmul a3 (invSqrt r))"
    and "\<bar>(valof (fmul a0 (invSqrt r)))\<^sup>2 + (valof (fmul a1 (invSqrt r)))\<^sup>2 +
          (valof (fmul a2 (invSqrt r)))\<^sup>2 + (valof (fmul a3 (invSqrt r)))\<^sup>2 - 1\<bar> \<le> 5 / 1000"
proof -
  define S where "S = (valof a0)\<^sup>2 + (valof a1)\<^sup>2 + (valof a2)\<^sup>2 + (valof a3)\<^sup>2"
  define vX where "vX = valof r"
  define y where "y = invSqrt r"
  define vy where "vy = valof y"
  define R where "R = vy\<^sup>2 * vX"
  define T where "T = vy\<^sup>2 * S"
  have fr: "is_finite r"
    using np by (rule valof_normal_pos(2))
  note se = sumsq_error [of a0 a1 a2 a3, folded r_def, OF fr, folded S_def vX_def]
  have vX: "1 / 2 ^ 126 \<le> vX"
    using normal_pos_range(1) [OF np] by (simp add: vX_def)
  have vX0: "0 < vX"
  proof -
    have "(0::real) < 1 / 2 ^ 126" by simp
    with vX show ?thesis by linarith
  qed
  have fy: "is_finite y"
    using invSqrt_normal(1) [OF np] by (simp add: y_def)
  have ny: "\<bar>vy * sqrt vX - 1\<bar> \<le> 2 / 1000"
    using invSqrt_normal(2) [OF np] by (simp add: vy_def y_def vX_def)
  have R: "R = (vy * sqrt vX)\<^sup>2"
    using vX0 by (simp add: R_def power_mult_distrib)
  have "998 / 1000 \<le> vy * sqrt vX" "vy * sqrt vX \<le> 1002 / 1000"
    using ny by linarith+
  then have "(998 / 1000)\<^sup>2 \<le> (vy * sqrt vX)\<^sup>2" "(vy * sqrt vX)\<^sup>2 \<le> (1002 / 1000)\<^sup>2"
    by (simp_all add: power_mono)
  then have Rr: "996004 / 1000000 \<le> R" "R \<le> 1004004 / 1000000"
    by (simp_all add: R power2_eq_square)
  have S0: "0 \<le> S"
    by (simp add: S_def)
  have "(1::real) / 2 ^ 146 = (1 / 2 ^ 126) / 2 ^ 20"
    by simp
  also have "\<dots> \<le> vX / 2 ^ 20"
    using vX by (rule divide_right_mono) simp
  finally have "\<bar>vX - S\<bar> \<le> S / 2 ^ 21 + vX / 2 ^ 20"
    using se(5) by linarith
  then have "vX - S \<le> S / 2097152 + vX / 1048576" "S - vX \<le> S / 2097152 + vX / 1048576"
    by (simp_all add: abs_le_iff)
  then have "S - vX \<le> vX / 524288" "vX - S \<le> vX / 524288"
    using S0 vX0 by linarith+
  then have SX: "\<bar>S - vX\<bar> \<le> vX / 2 ^ 19"
    by (intro abs_leI) simp_all
  have "\<bar>T - R\<bar> = vy\<^sup>2 * \<bar>S - vX\<bar>"
    by (simp add: T_def R_def abs_mult flip: right_diff_distrib)
  also have "\<dots> \<le> vy\<^sup>2 * (vX / 2 ^ 19)"
    using SX by (intro mult_left_mono) simp_all
  also have "\<dots> = R / 2 ^ 19"
    by (simp add: R_def)
  finally have "\<bar>T - R\<bar> \<le> R / 2 ^ 19" .
  then have TR: "T \<le> R + R / 2 ^ 19" "R - R / 2 ^ 19 \<le> T"
    by linarith+
  have Tr: "T \<le> 101 / 100"
    using TR(1) Rr by simp
  have c: "\<bar>valof a * vy\<bar> \<le> 101 / 100" if "(valof a)\<^sup>2 \<le> S" for a
  proof -
    have "(valof a * vy)\<^sup>2 = vy\<^sup>2 * (valof a)\<^sup>2"
      by (simp add: power_mult_distrib)
    also have "\<dots> \<le> vy\<^sup>2 * S"
      using that by (intro mult_left_mono) simp_all
    also have "\<dots> \<le> 101 / 100"
      using Tr by (simp add: T_def)
    also have "\<dots> \<le> (101 / 100 :: real)\<^sup>2"
      by (simp add: power2_eq_square)
    finally have "\<bar>valof a * vy\<bar> \<le> \<bar>101 / 100 :: real\<bar>"
      by (simp only: abs_le_square_iff)
    then show ?thesis
      by simp
  qed
  have comp: "is_finite (fmul a y) \<and> \<bar>(valof (fmul a y))\<^sup>2 - (valof a * vy)\<^sup>2\<bar> \<le> 1 / 2 ^ 21"
    if fa: "is_finite a" and le: "(valof a)\<^sup>2 \<le> S" for a
  proof -
    have m: "\<bar>valof a * vy\<bar> \<le> 101 / 100"
      using le by (rule c)
    then have "\<bar>valof a * valof y\<bar> < 2 ^ 127"
      by (simp add: vy_def)
    then have f: "is_finite (fmul a y)"
      using fa fy by (intro fmul_spec(1))
    have "\<bar>valof (fmul a y) - valof a * vy\<bar> \<le> \<bar>valof a * vy\<bar> / 2 ^ 24 + 1 / 2 ^ 150"
      using fmul_spec(2) [OF fa fy f] by (simp add: vy_def)
    then have d: "\<bar>valof (fmul a y) - valof a * vy\<bar> \<le> 1 / 2 ^ 23"
      using m by (simp add: add_divide_distrib distrib_right)
    have "\<bar>(valof (fmul a y))\<^sup>2 - (valof a * vy)\<^sup>2\<bar> \<le> (1 / 2 ^ 23) * (2 * (101 / 100) + 1 / 2 ^ 23)"
      using d m by (rule square_diff_bound)
    also have "\<dots> \<le> 1 / 2 ^ 21"
      by simp
    finally show ?thesis
      using f by simp
  qed
  have le: "(valof a0)\<^sup>2 \<le> S" "(valof a1)\<^sup>2 \<le> S" "(valof a2)\<^sup>2 \<le> S" "(valof a3)\<^sup>2 \<le> S"
    by (simp_all add: S_def)
  note c0 = comp [OF se(1) le(1)] and c1 = comp [OF se(2) le(2)]
    and c2 = comp [OF se(3) le(3)] and c3 = comp [OF se(4) le(4)]
  show "is_finite (fmul a0 (invSqrt r))" "is_finite (fmul a1 (invSqrt r))"
    "is_finite (fmul a2 (invSqrt r))" "is_finite (fmul a3 (invSqrt r))"
    using c0 c1 c2 c3 by (simp_all add: y_def)
  have "T = (valof a0 * vy)\<^sup>2 + (valof a1 * vy)\<^sup>2 + (valof a2 * vy)\<^sup>2 + (valof a3 * vy)\<^sup>2"
    by (simp add: T_def S_def power_mult_distrib algebra_simps)
  then have "\<bar>(valof (fmul a0 y))\<^sup>2 + (valof (fmul a1 y))\<^sup>2 + (valof (fmul a2 y))\<^sup>2 +
      (valof (fmul a3 y))\<^sup>2 - T\<bar> \<le> 4 / 2 ^ 21"
    using c0 c1 c2 c3 by linarith
  then have N: "(valof (fmul a0 y))\<^sup>2 + (valof (fmul a1 y))\<^sup>2 + (valof (fmul a2 y))\<^sup>2 +
      (valof (fmul a3 y))\<^sup>2 \<le> T + 4 / 2 ^ 21"
    "T - 4 / 2 ^ 21 \<le> (valof (fmul a0 y))\<^sup>2 + (valof (fmul a1 y))\<^sup>2 +
      (valof (fmul a2 y))\<^sup>2 + (valof (fmul a3 y))\<^sup>2"
    by linarith+
  have "\<bar>(valof (fmul a0 y))\<^sup>2 + (valof (fmul a1 y))\<^sup>2 + (valof (fmul a2 y))\<^sup>2 +
      (valof (fmul a3 y))\<^sup>2 - 1\<bar> \<le> 5 / 1000"
    using N TR Rr by (intro abs_leI) simp_all
  then show "\<bar>(valof (fmul a0 (invSqrt r)))\<^sup>2 + (valof (fmul a1 (invSqrt r)))\<^sup>2 +
          (valof (fmul a2 (invSqrt r)))\<^sup>2 + (valof (fmul a3 (invSqrt r)))\<^sup>2 - 1\<bar> \<le> 5 / 1000"
    by (simp add: y_def)
qed

section \<open>Zeros\<close>

lemma feq0_iff: "feq0 a \<longleftrightarrow> a = 0 \<or> a = 0x80000000"
proof
  assume "feq0 a"
  then have "a AND mask 31 = 0"
    by (simp add: feq0_def mask_eq_exp_minus_1)
  then have t: "take_bit 31 a = 0"
    by (simp add: take_bit_eq_mask)
  have "uint (take_bit 31 a) = take_bit 31 (uint a)"
    by (simp only: unsigned_take_bit_eq)
  also have "\<dots> = uint a mod 2 ^ 31"
    by (simp only: take_bit_eq_mod)
  finally have "uint (take_bit 31 a) = uint a mod 2 ^ 31" .
  with t have "uint a mod 2147483648 = 0"
    by simp
  then obtain k where k: "uint a = 2147483648 * k"
    by (auto simp: mod_eq_0_iff_dvd elim: dvdE)
  have "0 \<le> uint a" "uint a < 4294967296"
    using uint_bounded [of a] by simp_all
  with k have "k = 0 \<or> k = 1"
    by linarith
  with k have "uint a = 0 \<or> uint a = 2147483648"
    by auto
  then show "a = 0 \<or> a = 0x80000000"
    by (auto simp: word_uint_eq_iff)
next
  assume "a = 0 \<or> a = 0x80000000"
  then show "feq0 a"
    by (auto simp: feq0_def)
qed

lemma feq0_pack_zero: "feq0 (pack sg 0)"
  by (cases sg) (simp_all add: pack_def feq0_def)

lemma decode_zero:
  assumes "feq0 a"
  obtains sg where "decode a = Fin sg 0 (- 149)"
proof -
  have "decode 0 = Fin False 0 (- 149)" "decode 0x80000000 = Fin True 0 (- 149)"
    by code_simp+
  with assms that show thesis
    unfolding feq0_iff by blast
qed

lemma is_finite_zero: "feq0 a \<Longrightarrow> is_finite a"
  by (erule decode_zero) (rule is_finite_Fin)

lemma valof_zero: "feq0 a \<Longrightarrow> valof a = 0"
  by (erule decode_zero) (simp add: valof_Fin real_signed)

lemma fmul_zero_right:
  assumes "is_finite a" and "feq0 b"
  shows "feq0 (fmul a b)"
proof -
  from assms(1) obtain sa ma ea where a: "decode a = Fin sa ma ea"
    by (rule is_finite_cases)
  from assms(2) obtain sb where b: "decode b = Fin sb 0 (- 149)"
    by (rule decode_zero)
  show ?thesis
    by (simp add: fmul_def a b fround_def feq0_pack_zero)
qed

lemma fmul_zero_left:
  assumes "feq0 a" and "is_finite b"
  shows "feq0 (fmul a b)"
proof -
  from assms(1) obtain sa where a: "decode a = Fin sa 0 (- 149)"
    by (rule decode_zero)
  from assms(2) obtain sb mb eb where b: "decode b = Fin sb mb eb"
    by (rule is_finite_cases)
  show ?thesis
    by (simp add: fmul_def a b fround_def feq0_pack_zero)
qed

lemma fadd_zeros: "feq0 a \<Longrightarrow> feq0 b \<Longrightarrow> feq0 (fadd a b)"
  unfolding feq0_iff by (elim disjE; hypsubst; code_simp)

lemma fsub_zeros: "feq0 a \<Longrightarrow> feq0 b \<Longrightarrow> feq0 (fsub a b)"
  unfolding feq0_iff by (elim disjE; hypsubst; code_simp)

text \<open>The significand and exponent of a finite number are in normal form.\<close>

lemma decode_canonical:
  assumes "decode w = Fin sg m e"
  shows "(e = - 149 \<and> 0 \<le> m \<and> m < 2 ^ 23) \<or> (- 149 \<le> e \<and> e \<le> 104 \<and> 2 ^ 23 \<le> m \<and> m < 2 ^ 24)"
proof -
  have f: "0 \<le> frac_field w" "frac_field w < 2 ^ 23"
    by (simp_all add: frac_field_uint)
  have e: "0 \<le> exp_field w" "exp_field w < 2 ^ 8"
    by (simp_all add: exp_field_uint)
  show ?thesis
    using assms f e by (auto simp: decode_def split: if_splits)
qed

lemma rne_shift_exact: "rne_shift (a * 2 ^ k) k = a"
  by (simp add: rne_shift_def Let_def)

lemma bitlen_normal:
  assumes "2 ^ 23 \<le> m" and "m < 2 ^ 24"
  shows "bitlen m = 24"
proof -
  have "bitlen (2 ^ 23 + (m - 2 ^ 23)) = int 23 + 1"
    using assms bitlen_twopow_add_eq [of "m - 2 ^ 23" 23] by simp
  then show ?thesis
    by simp
qed

lemma bitlen_subnormal:
  assumes "0 < m" and "m < 2 ^ 23"
  shows "bitlen m \<le> 23"
proof -
  have "m < 2 ^ nat 23"
    using assms by simp
  then show ?thesis
    using assms(1) by (subst bitlen_le_iff_power) simp_all
qed

text \<open>Rounding a number that has a binary32 representation returns it.\<close>

lemma fround_representable:
  assumes c: "(e = - 149 \<and> 0 \<le> m \<and> m < 2 ^ 23) \<or> (- 149 \<le> e \<and> e \<le> 104 \<and> 2 ^ 23 \<le> m \<and> m < 2 ^ 24)"
    and m: "0 < m"
  shows "is_finite (fround sg (m * 2 ^ nat (e + 149)) (- 149))"
    and "valof (fround sg (m * 2 ^ nat (e + 149)) (- 149)) = real_of_int (signed sg m) * pow2 e"
proof -
  define k where "k = nat (e + 149)"
  define M where "M = m * 2 ^ k"
  have e: "- 149 \<le> e" "e \<le> 104" and m24: "m < 2 ^ 24"
    using c by auto
  have k: "int k = e + 149"
    using e by (simp add: k_def)
  have M0: "0 < M"
    using m by (simp add: M_def)
  have bl: "bitlen M = bitlen m + int k"
    unfolding M_def using m by (rule bitlen_pow2)
  have "round_exp M (- 149) = e \<and> round_sig M (- 149) = m"
  proof (cases "e = - 149")
    case True
    then have k0: "k = 0"
      by (simp add: k_def)
    have "bitlen m \<le> 24"
      using c m bitlen_normal [of m] bitlen_subnormal [of m] by auto
    then have "round_exp M (- 149) = - 149"
      by (simp add: round_exp_def bl k0)
    then show ?thesis
      using True by (simp add: round_sig_def M_def k0)
  next
    case False
    with c have n: "2 ^ 23 \<le> m" "m < 2 ^ 24"
      by auto
    have "round_exp M (- 149) = e"
      using e by (simp add: round_exp_def bl bitlen_normal [OF n] k)
    moreover have "\<not> e \<le> - 149"
      using False e by simp
    ultimately show ?thesis
      by (simp add: round_sig_def M_def k_def rne_shift_exact)
  qed
  then have q: "round_exp M (- 149) = e" and s: "round_sig M (- 149) = m"
    by simp_all
  have "(e + 149) * 2 ^ 23 \<le> 253 * 2 ^ 23"
    using e by simp
  then have b: "round_bits M (- 149) < inf_bits"
    using m24 by (simp add: round_bits_def q s inf_bits_def)
  have "is_finite (fround sg M (- 149))"
    using M0 b by (rule fround_value(1))
  then show "is_finite (fround sg (m * 2 ^ nat (e + 149)) (- 149))"
    by (simp add: M_def k_def)
  have "valof (fround sg M (- 149)) = real_of_int (signed sg m) * pow2 e"
    using fround_value(2) [OF M0 b, of sg] by (simp add: q s)
  then show "valof (fround sg (m * 2 ^ nat (e + 149)) (- 149)) = real_of_int (signed sg m) * pow2 e"
    by (simp add: M_def k_def)
qed

lemma fadd_zero_right:
  assumes "is_finite a" and "feq0 b"
  shows "is_finite (fadd a b)" and "valof (fadd a b) = valof a"
proof -
  from assms(1) obtain sa ma ea where a: "decode a = Fin sa ma ea" and ma: "0 \<le> ma"
    by (rule is_finite_cases)
  from assms(2) obtain sb where b: "decode b = Fin sb 0 (- 149)"
    by (rule decode_zero)
  note c = decode_canonical [OF a]
  then have e: "- 149 \<le> ea"
    by auto
  then have g: "min ea (- 149) = - 149"
    by simp
  define t where "t = signed sa ma * 2 ^ nat (ea + 149)"
  have f: "fadd a b = (if t = 0 then pack (sa \<and> sb) 0 else fround (t < 0) \<bar>t\<bar> (- 149))"
    by (simp add: fadd_def a b Let_def g t_def signed_def)
  have "is_finite (fadd a b) \<and> valof (fadd a b) = valof a"
  proof (cases "ma = 0")
    case True
    then show ?thesis
      by (simp add: f t_def signed_def valof_pack_zero valof_Fin [OF a])
  next
    case False
    with ma have m: "0 < ma"
      by simp
    then have t: "t \<noteq> 0" "(t < 0) = sa" "\<bar>t\<bar> = ma * 2 ^ nat (ea + 149)"
      by (cases sa; simp add: t_def signed_def abs_mult mult_less_0_iff zero_less_mult_iff)+
    show ?thesis
      using fround_representable [OF c m, of sa] by (simp add: f t valof_Fin [OF a])
  qed
  then show "is_finite (fadd a b)" and "valof (fadd a b) = valof a"
    by simp_all
qed

lemma zero_square: "feq0 a \<Longrightarrow> fmul a a = 0"
  unfolding feq0_iff by (elim disjE; hypsubst; code_simp)

lemma zero_plus_zero: "fadd 0 0 = 0"
  by code_simp

lemma invSqrt_zero: "invSqrt 0 = 0x5F898367"
  by code_simp

lemma zero_scaled: "feq0 a \<Longrightarrow> fmul a 0x5F898367 = a"
  unfolding feq0_iff by (elim disjE; hypsubst; code_simp)

section \<open>The update on zero inputs\<close>

lemma half_finite: "is_finite (flit 5 10)"
  by code_simp

lemma gyro_rate_zero:
  assumes fin: "is_finite (q0 st)" "is_finite (q1 st)" "is_finite (q2 st)" "is_finite (q3 st)"
    and g: "feq0 (coords3d.x gyro)" "feq0 (coords3d.y gyro)" "feq0 (coords3d.z gyro)"
  shows "rate_is_zero (gyro_rate st gyro)"
proof -
  have p: "feq0 (fmul (fneg (q1 st)) (coords3d.x gyro))"
    "feq0 (fmul (q0 st) (coords3d.x gyro))" "feq0 (fmul (q0 st) (coords3d.y gyro))"
    "feq0 (fmul (q0 st) (coords3d.z gyro))" "feq0 (fmul (q1 st) (coords3d.y gyro))"
    "feq0 (fmul (q1 st) (coords3d.z gyro))" "feq0 (fmul (q2 st) (coords3d.x gyro))"
    "feq0 (fmul (q2 st) (coords3d.y gyro))" "feq0 (fmul (q2 st) (coords3d.z gyro))"
    "feq0 (fmul (q3 st) (coords3d.x gyro))" "feq0 (fmul (q3 st) (coords3d.y gyro))"
    "feq0 (fmul (q3 st) (coords3d.z gyro))"
    using fin g by (simp_all add: fmul_zero_right)
  show ?thesis
    unfolding rate_is_zero_def gyro_rate_def Let_def prod.case
    by (intro conjI fmul_zero_right half_finite fadd_zeros fsub_zeros p)
qed

lemma integrate_zero:
  assumes fin: "is_finite a" and rf: "is_finite r" and d: "feq0 d"
  shows "is_finite (fadd a (fmul d r))" and "valof (fadd a (fmul d r)) = valof a"
  using fadd_zero_right [OF fin fmul_zero_left [OF d rf]] by simp_all

lemma ctor_values:
  "valof (q0 madgwick_ctor) = 1" "feq0 (q1 madgwick_ctor)" "feq0 (q2 madgwick_ctor)"
  "feq0 (q3 madgwick_ctor)"
proof -
  have d: "decode 0x3F800000 = Fin False 8388608 (- 23)"
    by code_simp
  show "valof (q0 madgwick_ctor) = 1"
    by (simp add: ctor_bits valof_def d signed_def)
  show "feq0 (q1 madgwick_ctor)" "feq0 (q2 madgwick_ctor)" "feq0 (q3 madgwick_ctor)"
    by (simp_all add: ctor_bits feq0_def)
qed

section \<open>The routine \<open>invSqrt\<close> against its description\<close>



section \<open>The routine where \<open>long\<close> has 64 bits\<close>

text \<open>
  The eight-byte read shifts the lowest bit of the adjacent word into the sign bit of the
  estimate.  For a positive normal argument the result is the one of \<open>invSqrt\<close> when that
  bit is clear and its negation when that bit is set; with \<open>halfx\<close> in the adjacent word,
  the argument \<open>0x3F800001\<close> gives \<open>0xBF7F910D\<close>, about -0.998.
\<close>

lemma top_bit: "(0x80000000 :: 32 word) = 2 ^ 31"
  by simp

lemma bit_top: "bit (0x80000000 :: 32 word) n \<longleftrightarrow> n = 31"
  unfolding top_bit by (simp only: bit_exp_iff) auto


lemma bit_top_int: "bit (0x80000000 :: int) n \<longleftrightarrow> n = 31"
proof -
  have "(0x80000000 :: int) = 2 ^ 31"
    by simp
  then show ?thesis
    by (simp only: bit_exp_iff) auto
qed

lemma flip_clear:
  fixes w :: "32 word"
  assumes "\<not> bit w 31"
  shows "w + 0x80000000 = w XOR 0x80000000"
proof -
  have "w AND 0x80000000 = 0"
  proof (rule bit_word_eqI)
    fix n assume "n < LENGTH(32)"
    show "bit (w AND 0x80000000) n \<longleftrightarrow> bit (0 :: 32 word) n"
      using assms by (simp only: bit_and_iff bit_top) auto
  qed
  then show ?thesis
    by (rule disjunctive_add_eq_xor)
qed

lemma ucast_diff_down: "(ucast (v - w :: 64 word) :: 32 word) = ucast v - ucast w"
proof -
  have "(ucast (v - w) :: 32 word) = word_of_int (uint (v - w))"
    by simp
  also have "\<dots> = word_of_int ((uint v - uint w) mod 2 ^ 64)"
    by (simp only: uint_word_ariths) simp
  also have "\<dots> = (word_of_int (uint v - uint w) :: 32 word)"
    by (simp only: word_of_int_eq_iff take_bit_eq_mod) (simp add: mod_mod_cancel)
  also have "\<dots> = ucast v - ucast w"
    by simp
  finally show ?thesis .
qed

lemma wide_shift:
  fixes a adjacent :: "32 word"
  shows "(ucast (signed_drop_bit 1 (word_cat adjacent a :: 64 word)) :: 32 word) =
           drop_bit 1 a + (if bit adjacent 0 then 0x80000000 else 0)"
proof -
  define t :: "32 word" where "t = (if bit adjacent 0 then 0x80000000 else 0)"
  have t: "bit t n \<longleftrightarrow> bit adjacent 0 \<and> n = 31" for n
    by (auto simp: t_def bit_top_int)
  have d: "drop_bit 1 a AND t = 0"
  proof (rule bit_word_eqI)
    fix n assume "n < LENGTH(32)"
    show "bit (drop_bit 1 a AND t) n \<longleftrightarrow> bit (0 :: 32 word) n"
      by (simp only: bit_and_iff t bit_drop_bit_eq) (auto dest: bit_imp_le_length)
  qed
  have "(ucast (signed_drop_bit 1 (word_cat adjacent a :: 64 word)) :: 32 word) = drop_bit 1 a OR t"
  proof (rule bit_word_eqI)
    fix n assume "n < LENGTH(32)"
    then have n: "n < 32"
      by simp
    show "bit (ucast (signed_drop_bit 1 (word_cat adjacent a :: 64 word)) :: 32 word) n \<longleftrightarrow>
            bit (drop_bit 1 a OR t) n"
    proof (cases "n = 31")
      case True
      have "\<not> bit a 32"
        by (auto dest: bit_imp_le_length)
      then show ?thesis
        unfolding True
        by (simp add: bit_or_iff t bit_drop_bit_eq bit_word_cat_iff bit_ucast_iff
            bit_signed_drop_bit_iff)
    next
      case False
      with n have "n < 31"
        by simp
      then show ?thesis
        by (simp add: bit_or_iff t bit_drop_bit_eq bit_word_cat_iff bit_ucast_iff
            bit_signed_drop_bit_iff)
    qed
  qed
  also have "\<dots> = drop_bit 1 a + t"
    using d by (rule disjunctive_add_eq_or [symmetric])
  finally show ?thesis
    by (simp only: t_def)
qed

lemma flip_top:
  fixes w :: "32 word"
  shows "w + 0x80000000 = w XOR 0x80000000"
proof (cases "bit w 31")
  case False
  then show ?thesis
    by (rule flip_clear)
next
  case True
  define v where "v = w XOR 0x80000000"
  have "\<not> bit v 31"
    using True unfolding v_def by (simp only: bit_xor_iff bit_top) simp
  then have "v + 0x80000000 = v XOR 0x80000000"
    by (rule flip_clear)
  also have "\<dots> = w"
    by (simp add: v_def xor.assoc)
  finally have "w + 0x80000000 = v + 0x80000000 + 0x80000000"
    by simp
  also have "\<dots> = v"
    by simp
  finally show ?thesis
    by (simp only: v_def)
qed

lemma fneg_pack: "pack (\<not> sg) b = fneg (pack sg b)"
proof -
  have "pack (\<not> sg) b = pack sg b + 0x80000000"
    by (simp add: pack_def)
  then show ?thesis
    by (simp only: flip_top fneg_def)
qed

lemma fround_fneg: "fround (\<not> sg) m e = fneg (fround sg m e)"
  by (simp add: fround_alt fneg_pack)

lemma fneg_fneg: "fneg (fneg a) = a"
  by (simp add: fneg_def xor.assoc)

lemma fround_True: "fround True m e = fneg (fround False m e)"
  using fround_fneg [of False m e] by simp

lemma fmul_fneg_right:
  assumes "is_finite a" and "is_finite b"
  shows "fmul a (fneg b) = fneg (fmul a b)"
proof -
  from assms(1) obtain sa ma ea where a: "decode a = Fin sa ma ea"
    by (rule is_finite_cases)
  from assms(2) obtain sb mb eb where b: "decode b = Fin sb mb eb"
    by (rule is_finite_cases)
  show ?thesis
    by (cases sa; cases sb) (simp_all add: fmul_def a b decode_fneg fround_True fneg_fneg)
qed

lemma fmul_fneg_left:
  assumes "is_finite a" and "is_finite b"
  shows "fmul (fneg a) b = fneg (fmul a b)"
proof -
  from assms(1) obtain sa ma ea where a: "decode a = Fin sa ma ea"
    by (rule is_finite_cases)
  from assms(2) obtain sb mb eb where b: "decode b = Fin sb mb eb"
    by (rule is_finite_cases)
  show ?thesis
    by (cases sa; cases sb) (simp_all add: fmul_def a b decode_fneg fround_True fneg_fneg)
qed

lemma fmul_fneg_both: "fmul (fneg a) (fneg b) = fmul a b"
  by (cases "decode a"; cases "decode b") (simp_all add: fmul_def decode_fneg)

lemma wide_estimate:
  fixes a adjacent :: "32 word"
  shows "(ucast (0x5f3759df - signed_drop_bit 1 (word_cat adjacent a :: 64 word)) :: 32 word) =
           0x5f3759df - drop_bit 1 a - (if bit adjacent 0 then 0x80000000 else 0)"
  by (simp only: ucast_diff_down wide_shift) simp

lemma shift_normal_pos:
  assumes "is_normal_pos a"
  shows "signed_drop_bit 1 a = drop_bit 1 a"
proof -
  have "uint a < 2 ^ 31"
    using assms by (simp add: is_normal_pos_def)
  then have "uint (signed_drop_bit 1 a) = uint a div 2"
    by (rule sign_clear_shift)
  also have "\<dots> = drop_bit 1 (uint a)"
    by (simp add: drop_bit_eq_div)
  also have "\<dots> = uint (drop_bit 1 a)"
    by (simp add: unsigned_drop_bit_eq bintr_uint)
  finally show ?thesis
    by (simp only: word_uint_eq_iff)
qed

lemma newton_fneg:
  assumes "is_finite (fmul y0 (fsub c (fmul (fmul h y0) y0)))"
  shows "fmul (fneg y0) (fsub c (fmul (fmul h (fneg y0)) (fneg y0))) =
           fneg (fmul y0 (fsub c (fmul (fmul h y0) y0)))"
proof -
  define w where "w = fsub c (fmul (fmul h y0) y0)"
  have f: "is_finite y0" "is_finite w"
    using assms fmul_finiteD [of y0 w] by (simp_all add: w_def)
  have "is_finite (fmul (fmul h y0) y0)"
    using f(2) fsub_finiteD [of c "fmul (fmul h y0) y0"] by (simp add: w_def)
  then have "is_finite (fmul h y0)"
    using fmul_finiteD [of "fmul h y0" y0] by simp
  then have h: "is_finite h"
    using fmul_finiteD [of h y0] by simp
  have "fmul (fmul h (fneg y0)) (fneg y0) = fmul (fneg (fmul h y0)) (fneg y0)"
    by (simp only: fmul_fneg_right [OF h f(1)])
  also have "\<dots> = fmul (fmul h y0) y0"
    by (rule fmul_fneg_both)
  finally have "fsub c (fmul (fmul h (fneg y0)) (fneg y0)) = w"
    by (simp only: w_def)
  then have "fmul (fneg y0) (fsub c (fmul (fmul h (fneg y0)) (fneg y0))) = fmul (fneg y0) w"
    by simp
  also have "\<dots> = fneg (fmul y0 w)"
    using f by (rule fmul_fneg_left)
  finally show ?thesis
    by (simp only: w_def)
qed

lemma invSqrt_long64_normal:
  assumes np: "is_normal_pos a"
  shows "invSqrt_long64 adjacent a = (if bit adjacent 0 then fneg (invSqrt a) else invSqrt a)"
proof -
  define y0 where "y0 = 0x5f3759df - signed_drop_bit 1 a"
  have i: "invSqrt a = fmul y0 (fsub (flit 15 10) (fmul (fmul (fmul (flit 5 10) a) y0) y0))"
    by (simp add: invSqrt_def Let_def y0_def)
  have e: "(ucast (0x5f3759df - signed_drop_bit 1 (word_cat adjacent a :: 64 word)) :: 32 word) =
             (if bit adjacent 0 then fneg y0 else y0)"
  proof (cases "bit adjacent 0")
    case True
    have "y0 - 0x80000000 = y0 + 0x80000000"
      by simp
    also have "\<dots> = fneg y0"
      by (simp only: flip_top fneg_def)
    finally show ?thesis
      using True by (simp only: wide_estimate y0_def shift_normal_pos [OF np] if_True)
  next
    case False
    then show ?thesis
      by (simp only: wide_estimate y0_def shift_normal_pos [OF np] if_False) simp
  qed
  have l: "invSqrt_long64 adjacent a =
             (if bit adjacent 0
              then fmul (fneg y0) (fsub (flit 15 10) (fmul (fmul (fmul (flit 5 10) a) (fneg y0)) (fneg y0)))
              else fmul y0 (fsub (flit 15 10) (fmul (fmul (fmul (flit 5 10) a) y0) y0)))"
    unfolding invSqrt_long64_def Let_def e by simp
  have "is_finite (invSqrt a)"
    using np by (rule invSqrt_normal(1))
  then have "is_finite (fmul y0 (fsub (flit 15 10) (fmul (fmul (fmul (flit 5 10) a) y0) y0)))"
    by (simp only: i)
  then show ?thesis
    unfolding l i by (simp only: newton_fneg)
qed

lemma long64_halfx_adjacent: "invSqrt_long64 (fmul (flit 5 10) 0x3F800001) 0x3F800001 = 0xBF7F910D"
  by code_simp

section \<open>One more evaluation\<close>

text \<open>The rotation rate of \<open>main.cpp\<close>, gravity measured off the axes, on a fresh filter.\<close>

lemma accel_tilted_nonzero: "\<not> accel_is_zero accel_tilted"
  by code_simp

lemma skew_accel:
  "normalise_accel accel_tilted =
     \<lparr>coords3d.x = 0x3DCD647A, coords3d.y = 0x3E4D647A, coords3d.z = 0x3F7909D4\<rparr>"
  by code_simp

lemma skew_gradient:
  "gradient madgwick_ctor
     \<lparr>coords3d.x = 0x3DCD647A, coords3d.y = 0x3E4D647A, coords3d.z = 0x3F7909D4\<rparr> =
     (0, 0xBECD647A, 0x3E4D647A, 0)"
  by code_simp

lemma skew_normalise_gradient:
  "normalise_gradient (0, 0xBECD647A, 0x3E4D647A, 0) = (0, 0xBF64ED33, 0x3EE4ED33, 0)"
  by code_simp

lemma skew_feedback:
  "apply_feedback madgwick_ctor (0x80000000, 0x3CCCCCCD, 0x3D051EB8, 0x3EE66666)
     (0, 0xBF64ED33, 0x3EE4ED33, 0) =
     (0x80000000, 0x3DEA575C, 0xBC4815C4, 0x3EE66666)"
  by code_simp

lemma skew_rate:
  "qDot madgwick_ctor main_gyro accel_tilted = (0x80000000, 0x3DEA575C, 0xBC4815C4, 0x3EE66666)"
  by (simp add: qDot_def accel_tilted_nonzero skew_accel skew_gradient skew_normalise_gradient
      main_rate skew_feedback)

lemma skew_integrate:
  "integrate madgwick_ctor (0x80000000, 0x3DEA575C, 0xBC4815C4, 0x3EE66666) =
     \<lparr>sampleFreq = 0x3C75C28F, beta = 0x3DCCCCCD,
      q0 = 0x3F800000, q1 = 0x40F41B01, q2 = 0xBF506C03, q3 = 0x41F00001\<rparr>"
  by code_simp

lemma skew_sumsq:
  "quat_sumsq
     \<lparr>sampleFreq = 0x3C75C28F, beta = 0x3DCCCCCD,
      q0 = 0x3F800000, q1 = 0x40F41B01, q2 = 0xBF506C03, q3 = 0x41F00001\<rparr> = 0x446FF6A6"
  by code_simp

lemma skew_normalise:
  "normalise_quat
     \<lparr>sampleFreq = 0x3C75C28F, beta = 0x3DCCCCCD,
      q0 = 0x3F800000, q1 = 0x40F41B01, q2 = 0xBF506C03, q3 = 0x41F00001\<rparr> =
     \<lparr>sampleFreq = 0x3C75C28F, beta = 0x3DCCCCCD,
      q0 = 0x3D03FA79, q1 = 0x3E7BB14F, q2 = 0xBCD6E663, q3 = 0x3F7775A4\<rparr>"
  by code_simp

lemma skew_update:
  "MadgwickAHRSupdateIMU madgwick_ctor main_gyro accel_tilted =
     (\<lparr>sampleFreq = 0x3C75C28F, beta = 0x3DCCCCCD,
       q0 = 0x3D03FA79, q1 = 0x3E7BB14F, q2 = 0xBCD6E663, q3 = 0x3F7775A4\<rparr>,
      \<lparr>quat.x = 0x3D03FA79, quat.y = 0x3E7BB14F, quat.z = 0xBCD6E663, quat.s = 0x3F7775A4\<rparr>)"
  by (simp add: update_steps skew_rate skew_integrate skew_normalise store_quat_eq)

lemma skew_values:
  "valof 0x3D03FA79 = 8649337 / 2 ^ 28" "valof 0x3E7BB14F = 16494927 / 2 ^ 26"
  "valof 0xBCD6E663 = - 14083683 / 2 ^ 29" "valof 0x3F7775A4 = 16217508 / 2 ^ 24"
proof -
  have d: "decode 0x3D03FA79 = Fin False 8649337 (- 28)"
    "decode 0x3E7BB14F = Fin False 16494927 (- 26)"
    "decode 0xBCD6E663 = Fin True 14083683 (- 29)"
    "decode 0x3F7775A4 = Fin False 16217508 (- 24)"
    by code_simp+
  show "valof 0x3D03FA79 = 8649337 / 2 ^ 28" "valof 0x3E7BB14F = 16494927 / 2 ^ 26"
    "valof 0xBCD6E663 = - 14083683 / 2 ^ 29" "valof 0x3F7775A4 = 16217508 / 2 ^ 24"
    by (simp_all add: valof_def d signed_def)
qed

lemma skew_inputs_finite:
  "is_finite (coords3d.x main_gyro)" "is_finite (coords3d.y main_gyro)"
  "is_finite (coords3d.z main_gyro)" "is_finite (coords3d.x accel_tilted)"
  "is_finite (coords3d.y accel_tilted)" "is_finite (coords3d.z accel_tilted)"
  "\<not> feq0 (coords3d.x main_gyro)" "\<not> feq0 (coords3d.y main_gyro)"
  "\<not> feq0 (coords3d.z main_gyro)" "\<not> feq0 (coords3d.x accel_tilted)"
  "\<not> feq0 (coords3d.y accel_tilted)" "\<not> feq0 (coords3d.z accel_tilted)"
  by code_simp+

section \<open>The claims\<close>

text \<open>
  C1 (as amended).  The returned \<open>quat\<close> is a copy of the new state in storage order: \<open>x\<close>
  holds \<open>q0\<close> (the scalar part), \<open>y\<close> holds \<open>q1\<close>, \<open>z\<close> holds \<open>q2\<close> and \<open>s\<close> holds \<open>q3\<close>.
  Lines 145 to 149 assign the fields in this order; there is no transposition.
\<close>

theorem returned_quat_is_positional_copy:
  "snd (MadgwickAHRSupdateIMU st gyro accel) =
     \<lparr>quat.x = q0 (fst (MadgwickAHRSupdateIMU st gyro accel)),
      quat.y = q1 (fst (MadgwickAHRSupdateIMU st gyro accel)),
      quat.z = q2 (fst (MadgwickAHRSupdateIMU st gyro accel)),
      quat.s = q3 (fst (MadgwickAHRSupdateIMU st gyro accel))\<rparr>"
  by (simp add: update_steps store_quat_eq)

text \<open>
  C1 as stated fails: after the call of \<open>main.cpp\<close> the new state is
  \<open>(q0, q1, q2, q3) = (0.0332, 0.0553, 0.0719, 0.9950)\<close>, and the returned \<open>x\<close> is \<open>q0\<close>, not
  \<open>q1\<close>; the returned \<open>s\<close> is \<open>q3\<close>, not \<open>q0\<close>.
\<close>

theorem returned_quat_not_transposed:
  "\<not> (quat.x (snd (MadgwickAHRSupdateIMU madgwick_ctor main_gyro main_accel)) =
        q1 (fst (MadgwickAHRSupdateIMU madgwick_ctor main_gyro main_accel)) \<and>
      quat.y (snd (MadgwickAHRSupdateIMU madgwick_ctor main_gyro main_accel)) =
        q2 (fst (MadgwickAHRSupdateIMU madgwick_ctor main_gyro main_accel)) \<and>
      quat.z (snd (MadgwickAHRSupdateIMU madgwick_ctor main_gyro main_accel)) =
        q3 (fst (MadgwickAHRSupdateIMU madgwick_ctor main_gyro main_accel)) \<and>
      quat.s (snd (MadgwickAHRSupdateIMU madgwick_ctor main_gyro main_accel)) =
        q0 (fst (MadgwickAHRSupdateIMU madgwick_ctor main_gyro main_accel)))"
  by (simp add: main_update)

text \<open>
  C5.  When all three components of \<open>accel\<close> compare equal to zero, the feedback block is
  skipped: the update is the gyroscope rate, integrated and normalised, with no correction
  term, for every state and every gyroscope input.
\<close>

theorem zero_accel_is_pure_gyro_integration:
  assumes "accel_is_zero accel"
  shows "MadgwickAHRSupdateIMU st gyro accel =
           (normalise_quat (integrate st (gyro_rate st gyro)),
            store_quat (normalise_quat (integrate st (gyro_rate st gyro))))"
  using assms by (simp add: update_steps qDot_def)

theorem zero_accel_is_pure_gyro_integration_witness:
  "accel_is_zero main_accel \<and>
   MadgwickAHRSupdateIMU madgwick_ctor main_gyro main_accel =
     (normalise_quat (integrate madgwick_ctor (gyro_rate madgwick_ctor main_gyro)),
      store_quat (normalise_quat (integrate madgwick_ctor (gyro_rate madgwick_ctor main_gyro))))"
  using zero_accel_is_pure_gyro_integration [OF main_accel_zero, of madgwick_ctor main_gyro]
    main_accel_zero
  by simp

text \<open>
  C9.  The update writes \<open>q0\<close>, \<open>q1\<close>, \<open>q2\<close> and \<open>q3\<close> and nothing else: the new object is the
  old one with these four members replaced, \<open>sampleFreq\<close> and \<open>beta\<close> keep their values, and
  on every path the committed quaternion is the integrated and normalised one.
\<close>

theorem update_writes_only_quaternion:
  "fst (MadgwickAHRSupdateIMU st gyro accel) =
     st\<lparr>q0 := q0 (fst (MadgwickAHRSupdateIMU st gyro accel)),
        q1 := q1 (fst (MadgwickAHRSupdateIMU st gyro accel)),
        q2 := q2 (fst (MadgwickAHRSupdateIMU st gyro accel)),
        q3 := q3 (fst (MadgwickAHRSupdateIMU st gyro accel))\<rparr> \<and>
   sampleFreq (fst (MadgwickAHRSupdateIMU st gyro accel)) = sampleFreq st \<and>
   beta (fst (MadgwickAHRSupdateIMU st gyro accel)) = beta st \<and>
   fst (MadgwickAHRSupdateIMU st gyro accel) = normalise_quat (integrate st (qDot st gyro accel))"
  by (cases "qDot st gyro accel") (simp add: update_steps normalise_quat_eq integrate_eq)

text \<open>
  C6.  The rate of change that the update integrates is the one that the formulas of the
  specification give: the gyroscope terms \<open>qDot1\<close> to \<open>qDot4\<close>, and, when \<open>accel\<close> is not
  zero, the gradient terms \<open>s0\<close> to \<open>s3\<close> of the normalised measurement, normalised and
  subtracted scaled by \<open>beta\<close>.  The equality is one of bit patterns: the auxiliary
  variables of the source stand for the same float operations in the same order.
\<close>

theorem update_follows_spec_formulas:
  "qDot st gyro accel = spec_rate st gyro accel \<and>
   MadgwickAHRSupdateIMU st gyro accel =
     (normalise_quat (integrate st (spec_rate st gyro accel)),
      store_quat (normalise_quat (integrate st (spec_rate st gyro accel))))"
proof -
  have "qDot st gyro accel = spec_rate st gyro accel"
    by (simp add: qDot_def spec_rate_def gyro_rate_def gradient_def normalise_accel_def
        normalise_gradient_def gradient_sumsq_def apply_feedback_def sq_def
        spec_qDot1_def spec_qDot2_def spec_qDot3_def spec_qDot4_def
        spec_s0_def spec_s1_def spec_s2_def spec_s3_def Let_def)
  then show ?thesis
    by (simp add: update_steps)
qed

text \<open>
  C7.  The integration step adds \<open>qDot_i * (1.0f / sampleFreq)\<close> to each component, all four
  right-hand sides being read from the state before the step (the rates are locals computed
  before the first assignment).  The constructor sets \<open>sampleFreq\<close> to \<open>0.015f\<close> and \<open>beta\<close>
  to \<open>0.1f\<close>, the binary32 values nearest to 0.015 and 0.1, and the update leaves both as
  they are.
\<close>

theorem integration_step:
  "integrate st (d1, d2, d3, d4) =
     st\<lparr>q0 := fadd (q0 st) (fmul d1 (fdiv (flit 1 1) (sampleFreq st))),
        q1 := fadd (q1 st) (fmul d2 (fdiv (flit 1 1) (sampleFreq st))),
        q2 := fadd (q2 st) (fmul d3 (fdiv (flit 1 1) (sampleFreq st))),
        q3 := fadd (q3 st) (fmul d4 (fdiv (flit 1 1) (sampleFreq st)))\<rparr> \<and>
   fst (MadgwickAHRSupdateIMU st gyro accel) = normalise_quat (integrate st (qDot st gyro accel)) \<and>
   sampleFreq (fst (MadgwickAHRSupdateIMU st gyro accel)) = sampleFreq st \<and>
   beta (fst (MadgwickAHRSupdateIMU st gyro accel)) = beta st \<and>
   sampleFreq madgwick_ctor = 0x3C75C28F \<and> beta madgwick_ctor = 0x3DCCCCCD \<and>
   \<bar>valof (sampleFreq madgwick_ctor) - 15 / 1000\<bar> \<le> 1 / 2 ^ 31 \<and>
   \<bar>valof (beta madgwick_ctor) - 1 / 10\<bar> \<le> 1 / 2 ^ 28"
proof -
  have d: "decode 0x3C75C28F = Fin False 16106127 (- 30)"
          "decode 0x3DCCCCCD = Fin False 13421773 (- 27)"
    by code_simp+
  have c: "sampleFreq madgwick_ctor = 0x3C75C28F" "beta madgwick_ctor = 0x3DCCCCCD"
    by (simp_all add: ctor_bits)
  have v: "\<bar>valof (sampleFreq madgwick_ctor) - 15 / 1000\<bar> \<le> 1 / 2 ^ 31"
          "\<bar>valof (beta madgwick_ctor) - 1 / 10\<bar> \<le> 1 / 2 ^ 28"
    unfolding c by (simp_all add: valof_def d signed_def)
  have u: "fst (MadgwickAHRSupdateIMU st gyro accel) = normalise_quat (integrate st (qDot st gyro accel))"
    by (simp add: update_steps)
  have f: "sampleFreq (fst (MadgwickAHRSupdateIMU st gyro accel)) = sampleFreq st"
          "beta (fst (MadgwickAHRSupdateIMU st gyro accel)) = beta st"
    unfolding u by (cases "qDot st gyro accel"; simp add: integrate_eq normalise_quat_eq)+
  show ?thesis
    using integrate_eq [of st d1 d2 d3 d4] u f c v by blast
qed

text \<open>
  C10.  With a zero gyroscope input the filter still moves: from the fresh filter,
  \<open>update((0,0,0), (1,0,0))\<close> takes the rate \<open>qDot3 = -beta * s2\<close> from the feedback alone,
  and the stored quaternion goes from \<open>(1, 0, 0, 0)\<close> to \<open>(0.148, 0, -0.988, 0)\<close>, whereas
  without the measurement \<open>q2\<close> stays zero.
\<close>

theorem zero_gyro_does_not_freeze:
  "\<exists>accel. \<not> accel_is_zero accel \<and>
     qDot madgwick_ctor gyro_zero accel \<noteq> gyro_rate madgwick_ctor gyro_zero \<and>
     fst (MadgwickAHRSupdateIMU madgwick_ctor gyro_zero accel) \<noteq> madgwick_ctor \<and>
     fst (MadgwickAHRSupdateIMU madgwick_ctor gyro_zero accel) \<noteq>
       fst (MadgwickAHRSupdateIMU madgwick_ctor gyro_zero main_accel) \<and>
     feq0 (q2 madgwick_ctor) \<and>
     feq0 (q2 (fst (MadgwickAHRSupdateIMU madgwick_ctor gyro_zero main_accel))) \<and>
     \<not> feq0 (q2 (fst (MadgwickAHRSupdateIMU madgwick_ctor gyro_zero accel)))"
proof (intro exI conjI)
  show "\<not> accel_is_zero accel_x"
    by (rule accel_x_nonzero)
  show "qDot madgwick_ctor gyro_zero accel_x \<noteq> gyro_rate madgwick_ctor gyro_zero"
    unfolding tilt_rate tilt_gyro_rate by simp
  show "fst (MadgwickAHRSupdateIMU madgwick_ctor gyro_zero accel_x) \<noteq> madgwick_ctor"
    unfolding tilt_update by (simp add: ctor_bits)
  show "fst (MadgwickAHRSupdateIMU madgwick_ctor gyro_zero accel_x) \<noteq>
          fst (MadgwickAHRSupdateIMU madgwick_ctor gyro_zero main_accel)"
    unfolding tilt_update rest_update by simp
  show "feq0 (q2 madgwick_ctor)"
    unfolding ctor_bits by (simp add: feq0_def)
  show "feq0 (q2 (fst (MadgwickAHRSupdateIMU madgwick_ctor gyro_zero main_accel)))"
    unfolding rest_update by (simp add: feq0_def)
  show "\<not> feq0 (q2 (fst (MadgwickAHRSupdateIMU madgwick_ctor gyro_zero accel_x)))"
    unfolding tilt_update by (simp add: feq0_def)
qed

text \<open>
  C2 as stated fails.  The fresh filter holds the unit quaternion \<open>(1, 0, 0, 0)\<close>; with
  gravity measured along the z axis, \<open>accel = (0, 0, 1)\<close>, all four gradient terms are zero
  and \<open>invSqrt\<close> is called on exactly zero.
\<close>

theorem gradient_sumsq_can_be_zero:
  "(valof (q0 madgwick_ctor))\<^sup>2 + (valof (q1 madgwick_ctor))\<^sup>2 +
     (valof (q2 madgwick_ctor))\<^sup>2 + (valof (q3 madgwick_ctor))\<^sup>2 = 1 \<and>
   \<not> accel_is_zero accel_z \<and>
   gradient madgwick_ctor (normalise_accel accel_z) = (0, 0, 0, 0) \<and>
   gradient_sumsq (gradient madgwick_ctor (normalise_accel accel_z)) = 0"
proof -
  have d: "decode 0x3F800000 = Fin False 8388608 (- 23)" "decode 0 = Fin False 0 (- 149)"
    by code_simp+
  have v: "valof 0x3F800000 = 1" "valof 0 = 0"
    by (simp_all add: valof_def d signed_def)
  have n: "(valof (q0 madgwick_ctor))\<^sup>2 + (valof (q1 madgwick_ctor))\<^sup>2 +
     (valof (q2 madgwick_ctor))\<^sup>2 + (valof (q3 madgwick_ctor))\<^sup>2 = 1"
    by (simp add: ctor_bits v)
  have g: "gradient madgwick_ctor (normalise_accel accel_z) = (0, 0, 0, 0)"
    by (simp only: level_accel level_gradient)
  show ?thesis
    using n accel_z_nonzero g level_sumsq by simp
qed

text \<open>
  C4 as stated fails in its second half.  On the fresh filter, the update with zero
  gyroscope and zero accelerometer input turns \<open>q0 = 1.0\<close> (\<open>0x3F800000\<close>) into
  \<open>0x3F7F910F\<close>, about 0.9983: \<open>invSqrt\<close> of the squared norm 1.0 is not 1.0, so the final
  normalisation is not a no-op.
\<close>

theorem rest_update_changes_state:
  "accel_is_zero main_accel \<and>
   feq0 (coords3d.x gyro_zero) \<and> feq0 (coords3d.y gyro_zero) \<and> feq0 (coords3d.z gyro_zero) \<and>
   q0 madgwick_ctor = 0x3F800000 \<and>
   q0 (fst (MadgwickAHRSupdateIMU madgwick_ctor gyro_zero main_accel)) = 0x3F7F910F \<and>
   fst (MadgwickAHRSupdateIMU madgwick_ctor gyro_zero main_accel) \<noteq> madgwick_ctor \<and>
   invSqrt (quat_sumsq madgwick_ctor) \<noteq> flit 1 1"
proof -
  have z: "feq0 (coords3d.x gyro_zero)" "feq0 (coords3d.y gyro_zero)" "feq0 (coords3d.z gyro_zero)"
          "invSqrt (quat_sumsq madgwick_ctor) \<noteq> flit 1 1"
    by code_simp+
  have a: "q0 madgwick_ctor = 0x3F800000"
    by (simp add: ctor_bits)
  have b: "q0 (fst (MadgwickAHRSupdateIMU madgwick_ctor gyro_zero main_accel)) = 0x3F7F910F"
    unfolding rest_update by simp
  have c: "fst (MadgwickAHRSupdateIMU madgwick_ctor gyro_zero main_accel) \<noteq> madgwick_ctor"
    unfolding rest_update by (simp add: ctor_bits)
  show ?thesis
    using z a b c main_accel_zero by blast
qed

text \<open>
  C2 (as amended).  The gradient can vanish for a unit quaternion and a measurement that is
  not zero, as on the fresh filter with gravity along the z axis.  Whenever the four gradient terms are
  zero, the sum of squares is exactly zero, \<open>invSqrt\<close> is called on zero and returns the
  finite value \<open>0x5F898367\<close> (about 1.98e19), and the normalised gradient terms are the same
  zeros: the call needs no guard to keep the result finite.
\<close>

theorem zero_gradient_needs_no_guard:
  assumes "feq0 s0" and "feq0 s1" and "feq0 s2" and "feq0 s3"
  shows "gradient_sumsq (s0, s1, s2, s3) = 0 \<and>
         invSqrt (gradient_sumsq (s0, s1, s2, s3)) = 0x5F898367 \<and>
         normalise_gradient (s0, s1, s2, s3) = (s0, s1, s2, s3)"
proof -
  have sumsq: "gradient_sumsq (s0, s1, s2, s3) = 0"
    using assms by (simp add: gradient_sumsq_def zero_square zero_plus_zero)
  then show ?thesis
    using assms by (simp add: normalise_gradient_def invSqrt_zero zero_scaled)
qed

theorem zero_gradient_needs_no_guard_witness:
  "gradient madgwick_ctor (normalise_accel accel_z) = (0, 0, 0, 0) \<and> feq0 0 \<and>
   gradient_sumsq (0, 0, 0, 0) = 0 \<and>
   invSqrt (gradient_sumsq (0, 0, 0, 0)) = 0x5F898367 \<and>
   normalise_gradient (0, 0, 0, 0) = (0, 0, 0, 0)"
proof -
  have z: "feq0 0"
    by (simp add: feq0_def)
  have g: "gradient madgwick_ctor (normalise_accel accel_z) = (0, 0, 0, 0)"
    by (simp only: level_accel level_gradient)
  show ?thesis
    using zero_gradient_needs_no_guard [OF z z z z] z g by blast
qed

text \<open>
  C4 (as amended).  A fresh filter holds the identity quaternion.  On any state with finite
  components and a finite \<open>1.0f / sampleFreq\<close>, the update with zero gyroscope and zero
  accelerometer input skips the feedback, the gyroscope rate is zero in all four
  components, the integration leaves the value of every component as it was, and the new
  state is that quaternion normalised, each component multiplied by \<open>invSqrt\<close> of the
  squared norm.  The normalisation is not the identity: on the fresh filter it turns
  \<open>q0 = 1.0\<close> into about 0.9983.
\<close>

theorem zero_input_update_only_normalises:
  assumes fin: "is_finite (q0 st)" "is_finite (q1 st)" "is_finite (q2 st)" "is_finite (q3 st)"
    and rf: "is_finite (fdiv (flit 1 1) (sampleFreq st))"
    and g: "feq0 (coords3d.x gyro)" "feq0 (coords3d.y gyro)" "feq0 (coords3d.z gyro)"
    and a: "accel_is_zero accel"
  shows "valof (q0 madgwick_ctor) = 1 \<and> feq0 (q1 madgwick_ctor) \<and>
         feq0 (q2 madgwick_ctor) \<and> feq0 (q3 madgwick_ctor) \<and>
         qDot st gyro accel = gyro_rate st gyro \<and>
         rate_is_zero (gyro_rate st gyro) \<and>
         is_finite (q0 (integrate st (qDot st gyro accel))) \<and>
         is_finite (q1 (integrate st (qDot st gyro accel))) \<and>
         is_finite (q2 (integrate st (qDot st gyro accel))) \<and>
         is_finite (q3 (integrate st (qDot st gyro accel))) \<and>
         valof (q0 (integrate st (qDot st gyro accel))) = valof (q0 st) \<and>
         valof (q1 (integrate st (qDot st gyro accel))) = valof (q1 st) \<and>
         valof (q2 (integrate st (qDot st gyro accel))) = valof (q2 st) \<and>
         valof (q3 (integrate st (qDot st gyro accel))) = valof (q3 st) \<and>
         fst (MadgwickAHRSupdateIMU st gyro accel) =
           normalise_quat (integrate st (qDot st gyro accel))"
proof -
  have q: "qDot st gyro accel = gyro_rate st gyro"
    using a by (simp add: qDot_def)
  have z: "rate_is_zero (gyro_rate st gyro)"
    using fin g by (rule gyro_rate_zero)
  obtain d1 d2 d3 d4 where d: "gyro_rate st gyro = (d1, d2, d3, d4)"
    by (cases "gyro_rate st gyro") auto
  with z have dz: "feq0 d1" "feq0 d2" "feq0 d3" "feq0 d4"
    by (simp_all add: rate_is_zero_def)
  have i: "is_finite (q0 (integrate st (qDot st gyro accel)))"
    "is_finite (q1 (integrate st (qDot st gyro accel)))"
    "is_finite (q2 (integrate st (qDot st gyro accel)))"
    "is_finite (q3 (integrate st (qDot st gyro accel)))"
    "valof (q0 (integrate st (qDot st gyro accel))) = valof (q0 st)"
    "valof (q1 (integrate st (qDot st gyro accel))) = valof (q1 st)"
    "valof (q2 (integrate st (qDot st gyro accel))) = valof (q2 st)"
    "valof (q3 (integrate st (qDot st gyro accel))) = valof (q3 st)"
    unfolding q d integrate_eq using fin rf dz by (simp_all add: integrate_zero)
  have u: "fst (MadgwickAHRSupdateIMU st gyro accel) =
             normalise_quat (integrate st (qDot st gyro accel))"
    by (simp add: update_steps)
  show ?thesis
    using ctor_values q z i u by blast
qed

theorem zero_input_update_only_normalises_witness:
  "is_finite (q0 madgwick_ctor) \<and> is_finite (fdiv (flit 1 1) (sampleFreq madgwick_ctor)) \<and>
   feq0 (coords3d.x gyro_zero) \<and> accel_is_zero main_accel \<and>
   rate_is_zero (gyro_rate madgwick_ctor gyro_zero) \<and>
   valof (q0 (integrate madgwick_ctor (qDot madgwick_ctor gyro_zero main_accel))) = 1 \<and>
   fst (MadgwickAHRSupdateIMU madgwick_ctor gyro_zero main_accel) =
     normalise_quat (integrate madgwick_ctor (qDot madgwick_ctor gyro_zero main_accel))"
proof -
  have f: "is_finite (q0 madgwick_ctor)" "is_finite (q1 madgwick_ctor)"
    "is_finite (q2 madgwick_ctor)" "is_finite (q3 madgwick_ctor)"
    "is_finite (fdiv (flit 1 1) (sampleFreq madgwick_ctor))"
    by code_simp+
  have g: "feq0 (coords3d.x gyro_zero)" "feq0 (coords3d.y gyro_zero)" "feq0 (coords3d.z gyro_zero)"
    by code_simp+
  note t = zero_input_update_only_normalises [OF f g main_accel_zero]
  have v: "valof (q0 (integrate madgwick_ctor (qDot madgwick_ctor gyro_zero main_accel))) = 1"
    using t by metis
  show ?thesis
    using t v f g main_accel_zero by blast
qed




text \<open>
  C3 as stated fails for the tolerance 1e-3.  On a fresh filter, the update with the
  gyroscope sample of \<open>main.cpp\<close> and \<open>accel = (0.1, 0.2, 0.97)\<close>, all six components finite
  and not zero, stores and returns a quaternion whose squared norm is about 0.99653: it
  misses one by more than 3/1000.
\<close>

theorem unit_norm_misses_one_thousandth:
  "is_finite (coords3d.x main_gyro) \<and> is_finite (coords3d.y main_gyro) \<and>
   is_finite (coords3d.z main_gyro) \<and> is_finite (coords3d.x accel_tilted) \<and>
   is_finite (coords3d.y accel_tilted) \<and> is_finite (coords3d.z accel_tilted) \<and>
   \<not> feq0 (coords3d.x main_gyro) \<and> \<not> feq0 (coords3d.y main_gyro) \<and>
   \<not> feq0 (coords3d.z main_gyro) \<and> \<not> feq0 (coords3d.x accel_tilted) \<and>
   \<not> feq0 (coords3d.y accel_tilted) \<and> \<not> feq0 (coords3d.z accel_tilted) \<and>
   3 / 1000 < \<bar>state_norm2 (fst (MadgwickAHRSupdateIMU madgwick_ctor main_gyro accel_tilted)) - 1\<bar> \<and>
   3 / 1000 < \<bar>quat_norm2 (snd (MadgwickAHRSupdateIMU madgwick_ctor main_gyro accel_tilted)) - 1\<bar>"
proof -
  have a: "3 / 1000 < \<bar>state_norm2 (fst (MadgwickAHRSupdateIMU madgwick_ctor main_gyro accel_tilted)) - 1\<bar>"
    unfolding skew_update by (simp add: state_norm2_def skew_values power2_eq_square)
  have b: "3 / 1000 < \<bar>quat_norm2 (snd (MadgwickAHRSupdateIMU madgwick_ctor main_gyro accel_tilted)) - 1\<bar>"
    unfolding skew_update by (simp add: quat_norm2_def skew_values power2_eq_square)
  show ?thesis
    using a b skew_inputs_finite by blast
qed

text \<open>
  C3 (as amended).  From every state, and so after every call of a sequence of calls: when
  the squared norm that line 138 computes from the integrated quaternion is a positive
  normal number (not zero, not subnormal, not infinite, not a NaN), the stored quaternion
  and the returned one have finite components, and their squared norm differs from one by
  at most 5/1000.
\<close>

theorem normalised_quaternion_near_unit:
  assumes "is_normal_pos (quat_sumsq (integrate st (qDot st gyro accel)))"
  shows "is_finite (q0 (fst (MadgwickAHRSupdateIMU st gyro accel))) \<and>
         is_finite (q1 (fst (MadgwickAHRSupdateIMU st gyro accel))) \<and>
         is_finite (q2 (fst (MadgwickAHRSupdateIMU st gyro accel))) \<and>
         is_finite (q3 (fst (MadgwickAHRSupdateIMU st gyro accel))) \<and>
         \<bar>state_norm2 (fst (MadgwickAHRSupdateIMU st gyro accel)) - 1\<bar> \<le> 5 / 1000 \<and>
         \<bar>quat_norm2 (snd (MadgwickAHRSupdateIMU st gyro accel)) - 1\<bar> \<le> 5 / 1000"
proof -
  define t where "t = integrate st (qDot st gyro accel)"
  have np: "is_normal_pos
      (fadd (fadd (fadd (fmul (q0 t) (q0 t)) (fmul (q1 t) (q1 t))) (fmul (q2 t) (q2 t)))
        (fmul (q3 t) (q3 t)))"
    using assms by (simp add: t_def quat_sumsq_def)
  note n = normalised_norm [OF np, folded quat_sumsq_def]
  have u: "fst (MadgwickAHRSupdateIMU st gyro accel) = normalise_quat t"
    "snd (MadgwickAHRSupdateIMU st gyro accel) = store_quat (normalise_quat t)"
    by (simp_all add: update_steps t_def)
  have f: "is_finite (q0 (normalise_quat t))" "is_finite (q1 (normalise_quat t))"
    "is_finite (q2 (normalise_quat t))" "is_finite (q3 (normalise_quat t))"
    using n(1-4) by (simp_all add: normalise_quat_eq)
  have a: "\<bar>state_norm2 (normalise_quat t) - 1\<bar> \<le> 5 / 1000"
    using n(5) by (simp add: state_norm2_def normalise_quat_eq)
  have b: "\<bar>quat_norm2 (store_quat (normalise_quat t)) - 1\<bar> \<le> 5 / 1000"
    using n(5) by (simp add: quat_norm2_def store_quat_eq normalise_quat_eq)
  show ?thesis
    unfolding u using f a b by blast
qed

theorem normalised_quaternion_near_unit_witness:
  "is_normal_pos (quat_sumsq (integrate madgwick_ctor (qDot madgwick_ctor main_gyro accel_tilted))) \<and>
   is_finite (q0 (fst (MadgwickAHRSupdateIMU madgwick_ctor main_gyro accel_tilted))) \<and>
   \<bar>state_norm2 (fst (MadgwickAHRSupdateIMU madgwick_ctor main_gyro accel_tilted)) - 1\<bar> \<le> 5 / 1000 \<and>
   \<bar>quat_norm2 (snd (MadgwickAHRSupdateIMU madgwick_ctor main_gyro accel_tilted)) - 1\<bar> \<le> 5 / 1000"
proof -
  have n: "is_normal_pos (quat_sumsq (integrate madgwick_ctor (qDot madgwick_ctor main_gyro accel_tilted)))"
    unfolding skew_rate skew_integrate skew_sumsq by (simp add: is_normal_pos_def)
  show ?thesis
    using normalised_quaternion_near_unit [OF n] n by blast
qed

end
